theory Spec2Isabelle
  imports Complex_Main "HOL-Library.Log_Nat" "HOL-Library.Option_ord" "HOL-Library.Stream"
begin

section \<open>Python sequences used by the pipeline\<close>

text \<open>
  Bit strings are Python \<open>str\<close> values over the characters \<open>0\<close> and \<open>1\<close>; they are
  modelled as \<open>string\<close>. \<open>range(lo, hi, step)\<close> with a positive step and the slice
  \<open>s[i : j]\<close> with \<open>0 \<le> i \<le> j\<close> are the two sequence operations the byte chunking uses.
  A slice that reaches past the end of the string is cut at the end, as in Python.
\<close>

definition py_range_step :: "nat \<Rightarrow> nat \<Rightarrow> nat \<Rightarrow> nat list" where
  "py_range_step lo hi step =
     map (\<lambda>j. lo + j * step) [0 ..< (hi - lo + step - 1) div step]"

definition py_slice :: "'a list \<Rightarrow> nat \<Rightarrow> nat \<Rightarrow> 'a list" where
  "py_slice s i j = take (j - i) (drop i s)"

subsection \<open>\<open>QuantumDataTeleporter.handle_flipped_results\<close>\<close>

text \<open>
  \<^verbatim>\<open>
  merged_binary = "".join(flipped_results)
  bytes_list = []
  for i in range(0, len(merged_binary), 8):
      byte = merged_binary[i : i + 8]
      bytes_list.append(byte)
  return bytes_list
  \<close>
\<close>

definition handle_flipped_results :: "string list \<Rightarrow> string list" where
  "handle_flipped_results flipped_results =
     (let merged_binary = concat flipped_results
      in map (\<lambda>i. py_slice merged_binary i (i + 8))
             (py_range_step 0 (length merged_binary) 8))"

text \<open>
  The slicing inside \<open>BB84Protocol.run_protocol\<close>:
  \<^verbatim>\<open>[decoded_binary[i : i + 8] for i in range(0, len(decoded_binary), 8)]\<close>
\<close>

definition bb84_byte_slices :: "string \<Rightarrow> string list" where
  "bb84_byte_slices decoded_binary =
     map (\<lambda>i. py_slice decoded_binary i (i + 8))
         (py_range_step 0 (length decoded_binary) 8)"

section \<open>Python numbers\<close>

text \<open>
  The shot-count estimators mix \<open>int\<close> and \<open>float\<close>. Python's \<open>int\<close> is unbounded and is
  modelled as \<open>int\<close>. A \<open>float\<close> is an IEEE 754 binary64 value: a finite value is the
  rational number it denotes, and every arithmetic result is rounded to the nearest
  binary64 value, ties to the even significand. Signed zero is not distinguished: no
  operation of the estimators observes the sign of a zero.
\<close>

datatype py_error = ValueError | TypeError | IndexError | OverflowError | ZeroDivisionError
  | HelperRaised

datatype pyfloat = Finite rat | PosInf | NegInf | NaN

datatype pynum = PyInt int | PyFloat pyfloat

text \<open>Round half to even: the rounding of binary64 arithmetic and of \<open>round(x)\<close>.\<close>

definition round_half_even :: "rat \<Rightarrow> int" where
  "round_half_even x =
     (let f = \<lfloor>x\<rfloor>; d = x - of_int f
      in if d < 1 / 2 then f
         else if 1 / 2 < d then f + 1
         else if even f then f else f + 1)"

text \<open>For \<open>x > 0\<close>, the exponent \<open>e\<close> with \<open>2 ^ e \<le> x < 2 ^ (e + 1)\<close>.\<close>

definition floor_log2 :: "rat \<Rightarrow> int" where
  "floor_log2 x =
     (if 1 \<le> x then bitlen \<lfloor>x\<rfloor> - 1
      else - bitlen (\<lceil>1 / x\<rceil> - 1))"

text \<open>
  The spacing of binary64 values around \<open>x\<close>: 53 significant bits, and the fixed
  spacing \<open>2 ^ -1074\<close> of the subnormal range.
\<close>

definition binary64_ulp :: "rat \<Rightarrow> rat" where
  "binary64_ulp x = 2 powi (max (floor_log2 \<bar>x\<bar> - 52) (- 1074))"

definition round_binary64 :: "rat \<Rightarrow> rat" where
  "round_binary64 x =
     (if x = 0 then 0
      else of_int (round_half_even (x / binary64_ulp x)) * binary64_ulp x)"

text \<open>
  The exponent of a finite binary64 value is at most 1023: a rounded result with a larger
  exponent, that is of magnitude \<open>2 ^ 1024\<close> or more, is an infinity.
\<close>

definition to_binary64 :: "rat \<Rightarrow> pyfloat" where
  "to_binary64 x =
     (let y = round_binary64 x
      in if y = 0 then Finite 0
         else if 1024 \<le> floor_log2 \<bar>y\<bar> then (if 0 < y then PosInf else NegInf)
         else Finite y)"

text \<open>
  Converting an \<open>int\<close> operand to \<open>float\<close> raises \<open>OverflowError\<close> when the value is
  too large, instead of giving an infinity.
\<close>

definition int_to_float :: "int \<Rightarrow> py_error + pyfloat" where
  "int_to_float n =
     (case to_binary64 (of_int n) of
        Finite y \<Rightarrow> Inr (Finite y)
      | _ \<Rightarrow> Inl OverflowError)"

fun float_sign :: "pyfloat \<Rightarrow> int" where
  "float_sign (Finite a) = (if a < 0 then - 1 else if a = 0 then 0 else 1)"
| "float_sign PosInf = 1"
| "float_sign NegInf = - 1"
| "float_sign NaN = 0"

fun float_mul :: "pyfloat \<Rightarrow> pyfloat \<Rightarrow> pyfloat" where
  "float_mul (Finite a) (Finite b) = to_binary64 (a * b)"
| "float_mul NaN y = NaN"
| "float_mul x NaN = NaN"
| "float_mul x y =
     (let s = float_sign x * float_sign y
      in if s = 0 then NaN else if 0 < s then PosInf else NegInf)"

fun float_add :: "pyfloat \<Rightarrow> pyfloat \<Rightarrow> pyfloat" where
  "float_add (Finite a) (Finite b) = to_binary64 (a + b)"
| "float_add NaN y = NaN"
| "float_add x NaN = NaN"
| "float_add PosInf NegInf = NaN"
| "float_add NegInf PosInf = NaN"
| "float_add PosInf y = PosInf"
| "float_add x PosInf = PosInf"
| "float_add NegInf y = NegInf"
| "float_add x NegInf = NegInf"

text \<open>Division of a float by a finite non-zero float.\<close>

fun float_div :: "pyfloat \<Rightarrow> rat \<Rightarrow> pyfloat" where
  "float_div (Finite a) d = to_binary64 (a / d)"
| "float_div PosInf d = (if 0 < d then PosInf else NegInf)"
| "float_div NegInf d = (if 0 < d then NegInf else PosInf)"
| "float_div NaN d = NaN"

fun float_lt :: "pyfloat \<Rightarrow> pyfloat \<Rightarrow> bool" where
  "float_lt (Finite a) (Finite b) = (a < b)"
| "float_lt NaN y = False"
| "float_lt x NaN = False"
| "float_lt NegInf NegInf = False"
| "float_lt NegInf y = True"
| "float_lt x NegInf = False"
| "float_lt PosInf y = False"
| "float_lt x PosInf = True"

text \<open>
  Comparison of numbers of either kind is exact: an \<open>int\<close> is compared with a \<open>float\<close>
  by value, without rounding the \<open>int\<close>.
\<close>

fun exact_value :: "pynum \<Rightarrow> pyfloat" where
  "exact_value (PyInt n) = Finite (of_int n)"
| "exact_value (PyFloat f) = f"

definition py_lt :: "pynum \<Rightarrow> pynum \<Rightarrow> bool" where
  "py_lt a b = float_lt (exact_value a) (exact_value b)"

fun float_le :: "pyfloat \<Rightarrow> pyfloat \<Rightarrow> bool" where
  "float_le (Finite a) (Finite b) = (a \<le> b)"
| "float_le NaN y = False"
| "float_le x NaN = False"
| "float_le NegInf y = True"
| "float_le x PosInf = True"
| "float_le PosInf y = False"
| "float_le x NegInf = False"

definition py_le :: "pynum \<Rightarrow> pynum \<Rightarrow> bool" where
  "py_le a b = float_le (exact_value a) (exact_value b)"

definition py_eq :: "pynum \<Rightarrow> pynum \<Rightarrow> bool" where
  "py_eq a b = (exact_value a = exact_value b \<and> exact_value a \<noteq> NaN)"

text \<open>
  \<open>min(a, b)\<close> keeps its first argument unless the second is strictly smaller, and
  returns the chosen argument as it is, an \<open>int\<close> or a \<open>float\<close>.
\<close>

definition py_min2 :: "pynum \<Rightarrow> pynum \<Rightarrow> pynum" where
  "py_min2 a b = (if py_lt b a then b else a)"

fun py_mul :: "pynum \<Rightarrow> pynum \<Rightarrow> py_error + pynum" where
  "py_mul (PyInt a) (PyInt b) = Inr (PyInt (a * b))"
| "py_mul (PyInt a) (PyFloat g) =
     (case int_to_float a of Inl e \<Rightarrow> Inl e | Inr f \<Rightarrow> Inr (PyFloat (float_mul f g)))"
| "py_mul (PyFloat f) (PyInt b) =
     (case int_to_float b of Inl e \<Rightarrow> Inl e | Inr g \<Rightarrow> Inr (PyFloat (float_mul f g)))"
| "py_mul (PyFloat f) (PyFloat g) = Inr (PyFloat (float_mul f g))"

fun py_add :: "pynum \<Rightarrow> pynum \<Rightarrow> py_error + pynum" where
  "py_add (PyInt a) (PyInt b) = Inr (PyInt (a + b))"
| "py_add (PyInt a) (PyFloat g) =
     (case int_to_float a of Inl e \<Rightarrow> Inl e | Inr f \<Rightarrow> Inr (PyFloat (float_add f g)))"
| "py_add (PyFloat f) (PyInt b) =
     (case int_to_float b of Inl e \<Rightarrow> Inl e | Inr g \<Rightarrow> Inr (PyFloat (float_add f g)))"
| "py_add (PyFloat f) (PyFloat g) = Inr (PyFloat (float_add f g))"

text \<open>
  True division by an \<open>int\<close> divisor. \<open>int / int\<close> is the correctly rounded quotient
  and raises \<open>OverflowError\<close> when it is too large for a float.
\<close>

fun py_truediv :: "pynum \<Rightarrow> int \<Rightarrow> py_error + pynum" where
  "py_truediv (PyInt a) d =
     (if d = 0 then Inl ZeroDivisionError
      else case to_binary64 (of_int a / of_int d) of
             Finite y \<Rightarrow> Inr (PyFloat (Finite y))
           | _ \<Rightarrow> Inl OverflowError)"
| "py_truediv (PyFloat f) d =
     (case int_to_float d of
        Inl e \<Rightarrow> Inl e
      | Inr (Finite g) \<Rightarrow>
          if g = 0 then Inl ZeroDivisionError else Inr (PyFloat (float_div f g))
      | Inr _ \<Rightarrow> Inl OverflowError)"

text \<open>\<open>round(x)\<close> with one argument returns an \<open>int\<close>.\<close>

fun py_round :: "pynum \<Rightarrow> py_error + int" where
  "py_round (PyInt n) = Inr n"
| "py_round (PyFloat (Finite a)) = Inr (round_half_even a)"
| "py_round (PyFloat NaN) = Inl ValueError"
| "py_round (PyFloat _) = Inl OverflowError"

text \<open>The float literals of the source, as the binary64 values they denote.\<close>

definition float_0_1 :: rat where
  "float_0_1 = 3602879701896397 / 36028797018963968"

definition float_0_90 :: rat where
  "float_0_90 = 8106479329266893 / 9007199254740992"

definition float_1_5 :: rat where
  "float_1_5 = 3 / 2"

section \<open>The adaptive shot-count estimators\<close>

text \<open>
  The arguments \<open>circuit_complexity\<close>, \<open>text_length\<close>, \<open>base_shots\<close> and \<open>max_shots\<close>
  are \<open>int\<close>s, as annotated. \<open>confidence_level\<close> is only compared with the literal
  \<open>0.90\<close>; it is given by its value.

  \<open>BB84Protocol.calculate_adaptive_shots\<close>:
  \<^verbatim>\<open>
  additional_shots_complexity = min(circuit_complexity * 5, max_shots - base_shots)
  additional_shots_length = min(text_length * 0.1, max_shots - base_shots)
  additional_shots = round((additional_shots_complexity + additional_shots_length) / 2)
  if confidence_level > 0.90:
      additional_shots = min(circuit_complexity * 1.5, max_shots - base_shots)
  return base_shots + additional_shots
  \<close>
  The rounded average is computed before the test, so an exception it raises is raised
  whatever the confidence level is.
\<close>

definition bb84_additional_shots :: "int \<Rightarrow> int \<Rightarrow> int \<Rightarrow> int \<Rightarrow> py_error + int" where
  "bb84_additional_shots circuit_complexity text_length base_shots max_shots =
     (let additional_shots_complexity =
            py_min2 (PyInt (circuit_complexity * 5)) (PyInt (max_shots - base_shots))
      in case py_mul (PyInt text_length) (PyFloat (Finite float_0_1)) of
           Inl e \<Rightarrow> Inl e
         | Inr scaled_length \<Rightarrow>
             let additional_shots_length = py_min2 scaled_length (PyInt (max_shots - base_shots))
             in case py_add additional_shots_complexity additional_shots_length of
                  Inl e \<Rightarrow> Inl e
                | Inr s \<Rightarrow>
                    (case py_truediv s 2 of
                       Inl e \<Rightarrow> Inl e
                     | Inr h \<Rightarrow> py_round h))"

definition bb84_calculate_adaptive_shots ::
  "int \<Rightarrow> int \<Rightarrow> rat \<Rightarrow> int \<Rightarrow> int \<Rightarrow> py_error + pynum" where
  "bb84_calculate_adaptive_shots circuit_complexity text_length confidence_level
       base_shots max_shots =
     (case bb84_additional_shots circuit_complexity text_length base_shots max_shots of
        Inl e \<Rightarrow> Inl e
      | Inr r \<Rightarrow>
          if float_0_90 < confidence_level then
            (case py_mul (PyInt circuit_complexity) (PyFloat (Finite float_1_5)) of
               Inl e \<Rightarrow> Inl e
             | Inr cx \<Rightarrow>
                 py_add (PyInt base_shots) (py_min2 cx (PyInt (max_shots - base_shots))))
          else py_add (PyInt base_shots) (PyInt r))"

text \<open>
  \<open>QuantumDataTeleporter.calculate_adaptive_shots\<close>:
  \<^verbatim>\<open>
  additional_shots = min(circuit_complexity * 5, max_shots - base_shots)
  if confidence_level > 0.90:
      additional_shots = min(circuit_complexity * 1.5, max_shots - base_shots)
  return base_shots + additional_shots
  \<close>
\<close>

definition qdt_calculate_adaptive_shots ::
  "int \<Rightarrow> rat \<Rightarrow> int \<Rightarrow> int \<Rightarrow> py_error + pynum" where
  "qdt_calculate_adaptive_shots circuit_complexity confidence_level base_shots max_shots =
     (let additional_shots =
            py_min2 (PyInt (circuit_complexity * 5)) (PyInt (max_shots - base_shots))
      in if float_0_90 < confidence_level then
           (case py_mul (PyInt circuit_complexity) (PyFloat (Finite float_1_5)) of
              Inl e \<Rightarrow> Inl e
            | Inr cx \<Rightarrow>
                py_add (PyInt base_shots) (py_min2 cx (PyInt (max_shots - base_shots))))
         else py_add (PyInt base_shots) additional_shots)"

section \<open>Measurement counts and the plurality vote\<close>

text \<open>
  \<open>result.get_counts()\<close> is a dict from outcome strings to numbers of shots. It is
  modelled as an association list in the dict's iteration order; \<open>counts.get(k)\<close> is the
  lookup, \<open>None\<close> for a missing key.
\<close>

type_synonym counts = "(string \<times> nat) list"

definition counts_get :: "counts \<Rightarrow> string \<Rightarrow> nat option" where
  "counts_get cs k = map_of cs k"

text \<open>
  \<open>max(iterable, key=f)\<close> walks the iterable once and replaces the candidate only by an
  element whose key is strictly greater, so the first of several maximal elements is
  returned; on an empty iterable it raises \<open>ValueError\<close>.
\<close>

fun py_max_from :: "('a \<Rightarrow> 'k::linorder) \<Rightarrow> 'a \<Rightarrow> 'a list \<Rightarrow> 'a" where
  "py_max_from key best [] = best"
| "py_max_from key best (x # xs) = py_max_from key (if key best < key x then x else best) xs"

definition py_max_key :: "('a \<Rightarrow> 'k::linorder) \<Rightarrow> 'a list \<Rightarrow> py_error + 'a" where
  "py_max_key key xs = (case xs of [] \<Rightarrow> Inl ValueError | x # rest \<Rightarrow> Inr (py_max_from key x rest))"

text \<open>
  \<^verbatim>\<open>res = max(result.get_counts(), key=result.get_counts().get)\<close> in the teleporter and
  \<^verbatim>\<open>res = max(result.get_counts().keys(), key=result.get_counts().get)\<close> in BB84:
  both iterate over the keys of the dict.
\<close>

definition most_frequent :: "counts \<Rightarrow> py_error + string" where
  "most_frequent cs = py_max_key (counts_get cs) (map fst cs)"

section \<open>Quantum circuits\<close>

text \<open>
  A \<open>QuantumCircuit(n, m)\<close> is its number of qubits, its number of classical bits and
  the list of instructions appended so far; \<open>len(circuit)\<close> is the number of
  instructions. \<open>measure\<close> with lists of qubits and classical bits appends one
  measurement per pair.
\<close>

datatype gate = X nat | Id nat | H nat | CX nat nat | CZ nat nat | CCX nat nat nat
  | Barrier | Measure nat nat

record quantum_circuit =
  num_qubits :: nat
  num_clbits :: nat
  instructions :: "gate list"

definition QuantumCircuit :: "nat \<Rightarrow> nat \<Rightarrow> quantum_circuit" where
  "QuantumCircuit n m = \<lparr>num_qubits = n, num_clbits = m, instructions = []\<rparr>"

definition append_gates :: "gate list \<Rightarrow> quantum_circuit \<Rightarrow> quantum_circuit" where
  "append_gates gs qc = qc\<lparr>instructions := instructions qc @ gs\<rparr>"

definition qc_x :: "nat \<Rightarrow> quantum_circuit \<Rightarrow> quantum_circuit" where
  "qc_x q = append_gates [X q]"

definition qc_id :: "nat \<Rightarrow> quantum_circuit \<Rightarrow> quantum_circuit" where
  "qc_id q = append_gates [Id q]"

definition qc_h :: "nat \<Rightarrow> quantum_circuit \<Rightarrow> quantum_circuit" where
  "qc_h q = append_gates [H q]"

definition qc_cx :: "nat \<Rightarrow> nat \<Rightarrow> quantum_circuit \<Rightarrow> quantum_circuit" where
  "qc_cx c t = append_gates [CX c t]"

definition qc_cz :: "nat \<Rightarrow> nat \<Rightarrow> quantum_circuit \<Rightarrow> quantum_circuit" where
  "qc_cz c t = append_gates [CZ c t]"

definition qc_ccx :: "nat \<Rightarrow> nat \<Rightarrow> nat \<Rightarrow> quantum_circuit \<Rightarrow> quantum_circuit" where
  "qc_ccx c d t = append_gates [CCX c d t]"

definition qc_barrier :: "quantum_circuit \<Rightarrow> quantum_circuit" where
  "qc_barrier = append_gates [Barrier]"

definition qc_measure :: "nat list \<Rightarrow> nat list \<Rightarrow> quantum_circuit \<Rightarrow> quantum_circuit" where
  "qc_measure qs cs = append_gates (map2 Measure qs cs)"

subsection \<open>The noiseless meaning of a circuit\<close>

text \<open>
  The simulator is an external library. What "noiseless" means for it is fixed here by
  the textbook semantics of the gates: a state is a list of computational basis states
  with non-zero amplitudes; the gates of these circuits have real matrices, and the
  common factor \<open>1 / sqrt 2\<close> of a Hadamard gate is left out, since only whether an
  amplitude is zero matters. A measurement splits a run into one branch for each outcome
  of non-zero probability, keeps the basis states that agree with the outcome and stores
  the outcome in the classical bit.
\<close>

type_synonym qstate = "(bool list \<times> int) list"

fun add_amplitude :: "bool list \<Rightarrow> int \<Rightarrow> qstate \<Rightarrow> qstate" where
  "add_amplitude b a [] = [(b, a)]"
| "add_amplitude b a ((b', a') # rest) =
     (if b = b' then (b, a + a') # rest else (b', a') # add_amplitude b a rest)"

definition collect_terms :: "qstate \<Rightarrow> qstate" where
  "collect_terms st = filter (\<lambda>(b, a). a \<noteq> 0) (fold (\<lambda>(b, a). add_amplitude b a) st [])"

definition flip_bit :: "nat \<Rightarrow> bool list \<Rightarrow> bool list" where
  "flip_bit q b = b[q := \<not> b ! q]"

fun apply_unitary :: "gate \<Rightarrow> qstate \<Rightarrow> qstate" where
  "apply_unitary (X q) st = map (\<lambda>(b, a). (flip_bit q b, a)) st"
| "apply_unitary (Id q) st = st"
| "apply_unitary (H q) st =
     collect_terms (concat (map (\<lambda>(b, a).
        [(b[q := False], a), (b[q := True], if b ! q then - a else a)]) st))"
| "apply_unitary (CX c t) st = map (\<lambda>(b, a). (if b ! c then flip_bit t b else b, a)) st"
| "apply_unitary (CZ c t) st = map (\<lambda>(b, a). (b, if b ! c \<and> b ! t then - a else a)) st"
| "apply_unitary (CCX c d t) st =
     map (\<lambda>(b, a). (if b ! c \<and> b ! d then flip_bit t b else b, a)) st"
| "apply_unitary Barrier st = st"
| "apply_unitary (Measure q c) st = st"

text \<open>A branch of a run: the classical register and the state.\<close>

fun apply_gate :: "gate \<Rightarrow> bool list \<times> qstate \<Rightarrow> (bool list \<times> qstate) list" where
  "apply_gate (Measure q c) (cl, st) =
     concat (map (\<lambda>v. let st' = filter (\<lambda>(b, a). b ! q = v) st
                        in if st' = [] then [] else [(cl[c := v], st')])
                 [False, True])"
| "apply_gate g (cl, st) = [(cl, apply_unitary g st)]"

definition run_gates :: "gate list \<Rightarrow> (bool list \<times> qstate) list \<Rightarrow> (bool list \<times> qstate) list" where
  "run_gates gs branches = fold (\<lambda>g bs. concat (map (apply_gate g) bs)) gs branches"

text \<open>
  The key of an outcome in the counts: the classical bits as characters, the highest
  classical bit first.
\<close>

definition bit_char :: "bool \<Rightarrow> char" where
  "bit_char v = (if v then CHR ''1'' else CHR ''0'')"

definition outcome_key :: "bool list \<Rightarrow> string" where
  "outcome_key cl = map bit_char (rev cl)"

definition ideal_outcomes :: "quantum_circuit \<Rightarrow> string list" where
  "ideal_outcomes qc =
     remdups (map (\<lambda>(cl, st). outcome_key cl)
       (run_gates (instructions qc)
          [(replicate (num_clbits qc) False, [(replicate (num_qubits qc) False, 1)])]))"

text \<open>
  A response of a simulator is noiseless for a circuit when it is a non-empty dict (no
  key occurs twice) and every outcome it reports has non-zero probability in the circuit.
\<close>

definition noiseless_response :: "quantum_circuit \<Rightarrow> py_error + counts \<Rightarrow> bool" where
  "noiseless_response qc r =
     (case r of
        Inl e \<Rightarrow> False
      | Inr cs \<Rightarrow> cs \<noteq> [] \<and> distinct (map fst cs)
                 \<and> list_all (\<lambda>k. k \<in> set (ideal_outcomes qc)) (map fst cs))"

section \<open>The teleportation circuit\<close>

text \<open>
  The body of the loop of \<open>QuantumDataTeleporter.create_circuits\<close>, for one bit of the
  binary text and its circuit:
  \<^verbatim>\<open>
  self.circuits[i].x(1 if self.binary_text[i] == "1" else 0)
  self.circuits[i].barrier()
  self.circuits[i].h(1)
  self.circuits[i].cx(1, 2)
  self.circuits[i].barrier()
  self.circuits[i].cx(0, 1)
  self.circuits[i].h(0)
  self.circuits[i].barrier()
  self.circuits[i].measure([0, 1], [0, 1])
  self.circuits[i].cx(1, 2)
  self.circuits[i].cz(0, 2)
  self.circuits[i].measure([2], [2])
  self.circuits[i].barrier()
  self.circuits[i].measure([0, 1, 2], [3, 4, 5])
  self.circuits[i].cx(3, 4)
  self.circuits[i].cx(3, 5)
  self.circuits[i].cx(4, 5)
  self.circuits[i].barrier()
  self.circuits[i].ccx(3, 4, 5)
  self.circuits[i].measure([5], [0])
  \<close>
\<close>

definition create_circuit :: "char \<Rightarrow> quantum_circuit \<Rightarrow> quantum_circuit" where
  "create_circuit b qc =
     (let qc = qc_x (if b = CHR ''1'' then 1 else 0) qc;
          qc = qc_barrier qc;
          qc = qc_h 1 qc;
          qc = qc_cx 1 2 qc;
          qc = qc_barrier qc;
          qc = qc_cx 0 1 qc;
          qc = qc_h 0 qc;
          qc = qc_barrier qc;
          qc = qc_measure [0, 1] [0, 1] qc;
          qc = qc_cx 1 2 qc;
          qc = qc_cz 0 2 qc;
          qc = qc_measure [2] [2] qc;
          qc = qc_barrier qc;
          qc = qc_measure [0, 1, 2] [3, 4, 5] qc;
          qc = qc_cx 3 4 qc;
          qc = qc_cx 3 5 qc;
          qc = qc_cx 4 5 qc;
          qc = qc_barrier qc;
          qc = qc_ccx 3 4 5 qc;
          qc = qc_measure [5] [0] qc
      in qc)"

text \<open>
  The circuit of \<open>BB84Protocol.run_protocol\<close> for one bit:
  \<^verbatim>\<open>
  circuit = QuantumCircuit(1, 1)
  circuit.x(0) if bit == "1" else circuit.id(0)
  circuit.barrier()
  circuit.measure(0, 0)
  \<close>
\<close>

definition bb84_circuit :: "char \<Rightarrow> quantum_circuit" where
  "bb84_circuit b =
     (let circuit = QuantumCircuit 1 1;
          circuit = (if b = CHR ''1'' then qc_x 0 circuit else qc_id 0 circuit);
          circuit = qc_barrier circuit;
          circuit = qc_measure [0] [0] circuit
      in circuit)"

section \<open>Collaborators outside the two classes\<close>

text \<open>
  The helper modules \<open>utils\<close> and \<open>compression_utils\<close> and the simulator backends are
  not part of the two classes; the classes are modelled over any choice of them. A text
  is a list of characters of an arbitrary type \<open>'c\<close>. The simulators are random:
  their answer may differ from one call to the next, so they take the position of the
  call in the loop. Helpers that reject malformed input, and the simulators, may raise.
\<close>

datatype compression = CStr string | CFalse

record 'c collaborators =
  convert_text_to_binary :: "'c list \<Rightarrow> string"
  convert_binary_to_text :: "string list \<Rightarrow> py_error + 'c list"
  bit_flipper :: "string \<Rightarrow> string"
  text_from_file :: "string \<Rightarrow> py_error + 'c list"
  brotli_compression :: "string \<Rightarrow> 'c list"
  adaptive_compression :: "string \<Rightarrow> 'c list list"
  decompress_data :: "'c list \<Rightarrow> compression \<Rightarrow> py_error + 'c list"
  basic_aer_execute :: "nat \<Rightarrow> quantum_circuit \<Rightarrow> pynum \<Rightarrow> py_error + counts"
  aer_simulator_run :: "nat \<Rightarrow> quantum_circuit \<Rightarrow> pynum option \<Rightarrow> py_error + counts"

text \<open>Truth value of an optional string argument: \<open>None\<close> and the empty string are false.\<close>

fun truthy :: "'a list option \<Rightarrow> bool" where
  "truthy None = False"
| "truthy (Some s) = (s \<noteq> [])"

section \<open>\<open>QuantumDataTeleporter\<close>\<close>

record 'c teleporter =
  shots :: pynum
  text_to_send :: "'c list"
  binary_text :: string
  circuits :: "quantum_circuit list"
  noise_model :: bool

text \<open>
  \<open>create_circuits\<close> updates \<open>self.circuits[i]\<close> for every index \<open>i\<close> of the binary text;
  a missing circuit would be an \<open>IndexError\<close>.
\<close>

definition create_circuits :: "'c teleporter \<Rightarrow> py_error + 'c teleporter" where
  "create_circuits self =
     (if length (circuits self) < length (binary_text self) then Inl IndexError
      else Inr (self\<lparr>circuits :=
             map (\<lambda>i. create_circuit (binary_text self ! i) (circuits self ! i))
                 [0 ..< length (binary_text self)]
             @ drop (length (binary_text self)) (circuits self)\<rparr>))"

text \<open>
  \<^verbatim>\<open>
  if not file_path and not text_to_send:
      raise ValueError("Either file_path or text_to_send must be provided.")
  self.shots = shots
  self.text_to_send = utils.text_from_file(file_path) if file_path else text_to_send
  self.binary_text = utils.convert_text_to_binary(self.text_to_send)
  self.circuits = []
  self.noise_model = noise_model
  self.circuits = [QuantumCircuit(6, 6) for _ in range(len(self.binary_text))]
  self.create_circuits()
  \<close>
  After the guard, \<open>text_to_send\<close> is a non-empty string whenever \<open>file_path\<close> is false.
\<close>

definition qdt_init ::
  "'c collaborators \<Rightarrow> pynum \<Rightarrow> string option \<Rightarrow> 'c list option \<Rightarrow> bool
     \<Rightarrow> py_error + 'c teleporter" where
  "qdt_init env shots_arg file_path text_arg noise =
     (if \<not> truthy file_path \<and> \<not> truthy text_arg then Inl ValueError
      else case (case file_path of
                   Some (p # ps) \<Rightarrow> text_from_file env (p # ps)
                 | _ \<Rightarrow> (case text_arg of Some txt \<Rightarrow> Inr txt | None \<Rightarrow> Inl TypeError)) of
             Inl e \<Rightarrow> Inl e
           | Inr txt \<Rightarrow>
               let bin = convert_text_to_binary env txt
               in create_circuits
                    \<lparr>shots = shots_arg, text_to_send = txt, binary_text = bin,
                     circuits = map (\<lambda>_. QuantumCircuit 6 6) [0 ..< length bin],
                     noise_model = noise\<rparr>)"

text \<open>
  The loop of \<open>run_simulation\<close> over the circuits:
  \<^verbatim>\<open>
  for circuit in self.circuits:
      if self.noise_model:
          result = simulator.run(circuit).result()
      else:
          result = execute(circuit, backend=simulator, shots=1).result()
      res = max(result.get_counts(), key=result.get_counts().get)
      flipped_result = utils.bit_flipper(res[0])
      flipped_results.append(flipped_result)
  \<close>
\<close>

definition qdt_simulate ::
  "'c collaborators \<Rightarrow> bool \<Rightarrow> nat \<Rightarrow> quantum_circuit \<Rightarrow> py_error + counts" where
  "qdt_simulate env noise i circuit =
     (if noise then aer_simulator_run env i circuit None
      else basic_aer_execute env i circuit (PyInt 1))"

definition qdt_measure :: "'c collaborators \<Rightarrow> bool \<Rightarrow> nat \<Rightarrow> quantum_circuit \<Rightarrow> py_error + string" where
  "qdt_measure env noise i circuit =
     (case qdt_simulate env noise i circuit of
        Inl e \<Rightarrow> Inl e
      | Inr cs \<Rightarrow>
          (case most_frequent cs of
             Inl e \<Rightarrow> Inl e
           | Inr [] \<Rightarrow> Inl IndexError
           | Inr (r0 # _) \<Rightarrow> Inr (bit_flipper env [r0])))"

fun qdt_measure_all ::
  "'c collaborators \<Rightarrow> bool \<Rightarrow> nat \<Rightarrow> quantum_circuit list \<Rightarrow> py_error + string list" where
  "qdt_measure_all env noise i [] = Inr []"
| "qdt_measure_all env noise i (circuit # rest) =
     (case qdt_measure env noise i circuit of
        Inl e \<Rightarrow> Inl e
      | Inr flipped_result \<Rightarrow>
          (case qdt_measure_all env noise (Suc i) rest of
             Inl e \<Rightarrow> Inl e
           | Inr flipped_results \<Rightarrow> Inr (flipped_result # flipped_results)))"

text \<open>
  \<open>run_simulation\<close>. It first overwrites \<open>self.shots\<close>:
  \<^verbatim>\<open>
  self.shots = self.calculate_adaptive_shots(len(self.circuits[0] if self.circuits else 0))
  \<close>
  With no circuit the argument of \<open>len\<close> is the integer \<open>0\<close>, a \<open>TypeError\<close>. After the
  loop:
  \<^verbatim>\<open>
  binary_chunks = self.handle_flipped_results(flipped_results)
  converted_chunks = utils.convert_binary_to_text(binary_chunks)
  ...
  return converted_chunks, converted_chunks == self.text_to_send
  \<close>
  The printed report of a mismatch is not part of the result. The function returns the
  pair and leaves the object with the new \<open>shots\<close>.
\<close>

definition run_simulation ::
  "'c collaborators \<Rightarrow> 'c teleporter \<Rightarrow> py_error + (('c list \<times> bool) \<times> 'c teleporter)" where
  "run_simulation env self =
     (case (case circuits self of
              [] \<Rightarrow> Inl TypeError
            | c0 # _ \<Rightarrow>
                qdt_calculate_adaptive_shots (int (length (instructions c0))) float_0_90 0 5) of
        Inl e \<Rightarrow> Inl e
      | Inr new_shots \<Rightarrow>
          let self = self\<lparr>shots := new_shots\<rparr>
          in case qdt_measure_all env (noise_model self) 0 (circuits self) of
               Inl e \<Rightarrow> Inl e
             | Inr flipped_results \<Rightarrow>
                 let binary_chunks = handle_flipped_results flipped_results
                 in case convert_binary_to_text env binary_chunks of
                      Inl e \<Rightarrow> Inl e
                    | Inr converted_chunks \<Rightarrow>
                        Inr ((converted_chunks, converted_chunks = text_to_send self), self))"

section \<open>\<open>BB84Protocol\<close>\<close>

text \<open>
  \<open>random.randint(0, 1)\<close> draws from the state of the random generator: the generator
  is the stream of bits still to be drawn, and \<open>generate_random_bits\<close> returns the string
  with the rest of the stream.
\<close>

definition generate_random_bits :: "nat \<Rightarrow> bool stream \<Rightarrow> string \<times> bool stream" where
  "generate_random_bits len rng = (map bit_char (stake len rng), sdrop len rng)"

text \<open>
  \<open>s.zfill(width)\<close> pads with zeros on the left up to \<open>width\<close>; a leading sign character
  stays in front of the padding.
\<close>

definition zfill :: "nat \<Rightarrow> string \<Rightarrow> string" where
  "zfill width s =
     (case s of
        c # rest \<Rightarrow>
          if c = CHR ''+'' \<or> c = CHR ''-''
          then c # replicate (width - length s) (CHR ''0'') @ rest
          else replicate (width - length s) (CHR ''0'') @ s
      | [] \<Rightarrow> replicate width (CHR ''0''))"

record 'c bb84 =
  bb_data :: "'c list"
  bb_compression :: compression
  bb_noise_model :: bool
  bb_shots :: pynum
  output_path :: "string option"
  logs :: bool
  binary_data :: string
  data_length :: nat
  key_bits :: string
  base_bits :: string

text \<open>
  \<^verbatim>\<open>
  self.binary_data = utils.convert_text_to_binary(data)
  self.data_length = len(self.binary_data)
  self.key_bits = self.generate_random_bits(self.data_length)
  self.base_bits = self.generate_random_bits(self.data_length)
  if compression == "brotli":
      compressed_data = c_utils.brotli_compression(self.binary_data)
      self.binary_data = utils.convert_text_to_binary(compressed_data)
  elif compression == "adaptive":
      compressed_data = c_utils.adaptive_compression(self.binary_data)
      self.binary_data = utils.convert_text_to_binary(compressed_data[0])
  max_length = max(len(self.binary_data), len(self.key_bits), len(self.base_bits))
  self.binary_data = self.binary_data.zfill(max_length)
  self.key_bits = self.key_bits.zfill(max_length)
  self.base_bits = self.base_bits.zfill(max_length)
  \<close>
  The compression step is \<open>bb84_compress\<close>; \<open>compressed_data[0]\<close> on an empty result is
  an \<open>IndexError\<close>.
\<close>

definition bb84_compress :: "'c collaborators \<Rightarrow> compression \<Rightarrow> string \<Rightarrow> py_error + string" where
  "bb84_compress env compr bin0 =
     (if compr = CStr ''brotli''
      then Inr (convert_text_to_binary env (brotli_compression env bin0))
      else if compr = CStr ''adaptive''
      then (case adaptive_compression env bin0 of
              [] \<Rightarrow> Inl IndexError
            | compressed0 # _ \<Rightarrow> Inr (convert_text_to_binary env compressed0))
      else Inr bin0)"

definition bb84_init ::
  "'c collaborators \<Rightarrow> bool stream \<Rightarrow> 'c list \<Rightarrow> compression \<Rightarrow> bool \<Rightarrow> pynum
     \<Rightarrow> string option \<Rightarrow> bool \<Rightarrow> py_error + ('c bb84 \<times> bool stream)" where
  "bb84_init env rng text_arg compr noise shots_arg out_path logs_arg =
     (let bin0 = convert_text_to_binary env text_arg;
          len0 = length bin0;
          (key0, rng1) = generate_random_bits len0 rng;
          (base0, rng2) = generate_random_bits len0 rng1
      in case bb84_compress env compr bin0 of
           Inl e \<Rightarrow> Inl e
         | Inr bin1 \<Rightarrow>
             let max_length = max (max (length bin1) (length key0)) (length base0)
             in Inr (\<lparr>bb_data = text_arg, bb_compression = compr, bb_noise_model = noise,
                      bb_shots = shots_arg, output_path = out_path, logs = logs_arg,
                      binary_data = zfill max_length bin1, data_length = len0,
                      key_bits = zfill max_length key0,
                      base_bits = zfill max_length base0\<rparr>, rng2))"

text \<open>
  The loop of \<open>run_protocol\<close> over the bits of the encoded data:
  \<^verbatim>\<open>
  result = (simulator.run(circuit, shots=self.shots).result() if self.noise_model
            else execute(circuit, backend=simulator, shots=self.shots).result())
  res = max(result.get_counts().keys(), key=result.get_counts().get)
  flipped_result = res
  flipped_results.append(flipped_result)
  \<close>
\<close>

definition bb84_simulate ::
  "'c collaborators \<Rightarrow> bool \<Rightarrow> pynum \<Rightarrow> nat \<Rightarrow> char \<Rightarrow> py_error + counts" where
  "bb84_simulate env noise sh i b =
     (if noise then aer_simulator_run env i (bb84_circuit b) (Some sh)
      else basic_aer_execute env i (bb84_circuit b) sh)"

definition bb84_measure ::
  "'c collaborators \<Rightarrow> bool \<Rightarrow> pynum \<Rightarrow> nat \<Rightarrow> char \<Rightarrow> py_error + string" where
  "bb84_measure env noise sh i b =
     (case bb84_simulate env noise sh i b of
        Inl e \<Rightarrow> Inl e
      | Inr cs \<Rightarrow> most_frequent cs)"

fun bb84_measure_all ::
  "'c collaborators \<Rightarrow> bool \<Rightarrow> pynum \<Rightarrow> nat \<Rightarrow> string \<Rightarrow> py_error + string list" where
  "bb84_measure_all env noise sh i [] = Inr []"
| "bb84_measure_all env noise sh i (b # rest) =
     (case bb84_measure env noise sh i b of
        Inl e \<Rightarrow> Inl e
      | Inr flipped_result \<Rightarrow>
          (case bb84_measure_all env noise sh (Suc i) rest of
             Inl e \<Rightarrow> Inl e
           | Inr flipped_results \<Rightarrow> Inr (flipped_result # flipped_results)))"

text \<open>
  \<open>run_protocol\<close>:
  \<^verbatim>\<open>
  if self.shots == -1:
      self.shots = self.calculate_adaptive_shots(len(self.binary_data), len(self.binary_data))
  ...
  decoded_binary = "".join(flipped_results)
  decoded_text = c_utils.decompress_data(
      utils.convert_binary_to_text(
          [decoded_binary[i : i + 8] for i in range(0, len(decoded_binary), 8)]),
      self.compression, logs=True)
  ...
  return decoded_text, decoded_text == self.data
  \<close>
  Saving the summary to \<open>output_path\<close> does not change the result.
\<close>

definition run_protocol ::
  "'c collaborators \<Rightarrow> 'c bb84 \<Rightarrow> py_error + (('c list \<times> bool) \<times> 'c bb84)" where
  "run_protocol env self =
     (let encoded_data = binary_data self
      in case (if py_eq (bb_shots self) (PyInt (- 1))
               then bb84_calculate_adaptive_shots (int (length (binary_data self)))
                      (int (length (binary_data self))) float_0_90 250 4096
               else Inr (bb_shots self)) of
           Inl e \<Rightarrow> Inl e
         | Inr new_shots \<Rightarrow>
             let self = self\<lparr>bb_shots := new_shots\<rparr>
             in case bb84_measure_all env (bb_noise_model self) (bb_shots self) 0 encoded_data of
                  Inl e \<Rightarrow> Inl e
                | Inr flipped_results \<Rightarrow>
                    let decoded_binary = concat flipped_results
                    in case convert_binary_to_text env (bb84_byte_slices decoded_binary) of
                         Inl e \<Rightarrow> Inl e
                       | Inr converted \<Rightarrow>
                           (case decompress_data env converted (bb_compression self) of
                              Inl e \<Rightarrow> Inl e
                            | Inr decoded_text \<Rightarrow>
                                Inr ((decoded_text, decoded_text = bb_data self), self)))"

section \<open>Reference collaborators\<close>

text \<open>
  Modelled from the spec: the helper modules \<open>utils\<close> and \<open>compression_utils\<close> are missing
  from the sources, and the simulator is an external library. The spec describes the
  binary string as the text's bit representation, whole bytes of 8 bits, cut into 8-bit
  groups that are reassembled into characters; a bit flip exchanges \<open>0\<close> and \<open>1\<close>. The
  definitions below are one choice of collaborators of that kind, over 8-bit characters,
  with a simulator that reports the first outcome of non-zero probability for every
  shot. They are used to run the two classes on concrete inputs; the theorems about the
  classes hold for every choice of collaborators.
\<close>

fun char_bits :: "char \<Rightarrow> string" where
  "char_bits (Char b0 b1 b2 b3 b4 b5 b6 b7) = map bit_char [b7, b6, b5, b4, b3, b2, b1, b0]"

definition is_bit :: "char \<Rightarrow> bool" where
  "is_bit c = (c = CHR ''0'' \<or> c = CHR ''1'')"

fun bits_char :: "string \<Rightarrow> char option" where
  "bits_char [c7, c6, c5, c4, c3, c2, c1, c0] =
     (if list_all is_bit [c7, c6, c5, c4, c3, c2, c1, c0]
      then Some (Char (c0 = CHR ''1'') (c1 = CHR ''1'') (c2 = CHR ''1'') (c3 = CHR ''1'')
                      (c4 = CHR ''1'') (c5 = CHR ''1'') (c6 = CHR ''1'') (c7 = CHR ''1''))
      else None)"
| "bits_char _ = None"

definition ref_convert_text_to_binary :: "string \<Rightarrow> string" where
  "ref_convert_text_to_binary txt = concat (map char_bits txt)"

fun ref_convert_binary_to_text :: "string list \<Rightarrow> py_error + string" where
  "ref_convert_binary_to_text [] = Inr []"
| "ref_convert_binary_to_text (chunk # chunks) =
     (case bits_char chunk of
        None \<Rightarrow> Inl ValueError
      | Some c \<Rightarrow>
          (case ref_convert_binary_to_text chunks of
             Inl e \<Rightarrow> Inl e
           | Inr cs \<Rightarrow> Inr (c # cs)))"

definition ref_bit_flipper :: "string \<Rightarrow> string" where
  "ref_bit_flipper b = (if b = ''0'' then ''1'' else ''0'')"

definition ref_simulator :: "quantum_circuit \<Rightarrow> nat \<Rightarrow> py_error + counts" where
  "ref_simulator qc n =
     (case ideal_outcomes qc of
        [] \<Rightarrow> Inl ValueError
      | k # _ \<Rightarrow> Inr [(k, n)])"

definition ref_collaborators :: "char collaborators" where
  "ref_collaborators =
     \<lparr>convert_text_to_binary = ref_convert_text_to_binary,
      convert_binary_to_text = ref_convert_binary_to_text,
      bit_flipper = ref_bit_flipper,
      text_from_file = (\<lambda>path. if path = ''data/text.txt'' then Inr ''Hi'' else Inl HelperRaised),
      brotli_compression = (\<lambda>bin. bin),
      adaptive_compression = (\<lambda>bin. [bin, ''none'']),
      decompress_data = (\<lambda>txt compr. Inr txt),
      basic_aer_execute = (\<lambda>i qc sh. ref_simulator qc 1),
      aer_simulator_run = (\<lambda>i qc sh. ref_simulator qc 1024)\<rparr>"

section \<open>Byte chunking\<close>

lemma concat_slices_take:
  "concat (map (\<lambda>j. take 8 (drop (j * 8) s)) [0 ..< n]) = take (n * 8) s"
proof (induction n)
  case 0
  show ?case by simp
next
  case (Suc n)
  have "take (n * 8 + 8) s = take (n * 8) s @ take 8 (drop (n * 8) s)"
    by (rule take_add)
  moreover have "Suc n * 8 = n * 8 + 8"
    by simp
  ultimately show ?case
    using Suc by (simp del: mult_Suc)
qed

lemma byte_slices_unfold:
  "map (\<lambda>i. py_slice s i (i + 8)) (py_range_step 0 (length s) 8) =
   map (\<lambda>j. take 8 (drop (j * 8) s)) [0 ..< (length s + 7) div 8]"
  by (simp add: py_range_step_def py_slice_def comp_def add.commute)

lemma concat_byte_slices:
  "concat (map (\<lambda>i. py_slice s i (i + 8)) (py_range_step 0 (length s) 8)) = s"
proof -
  have "length s \<le> ((length s + 7) div 8) * 8"
    by arith
  then have "take (((length s + 7) div 8) * 8) s = s"
    by (rule take_all)
  then show ?thesis
    unfolding byte_slices_unfold concat_slices_take .
qed

lemma length_byte_slices:
  "length s = 8 * k \<Longrightarrow>
   length (map (\<lambda>i. py_slice s i (i + 8)) (py_range_step 0 (length s) 8)) = k"
  unfolding byte_slices_unfold by simp

lemma byte_slices_all_8:
  assumes "length s = 8 * k"
    and "c \<in> set (map (\<lambda>i. py_slice s i (i + 8)) (py_range_step 0 (length s) 8))"
  shows "length c = 8"
proof -
  from assms(2) obtain j where j: "j < (length s + 7) div 8" and c: "c = take 8 (drop (j * 8) s)"
    unfolding byte_slices_unfold by auto
  from j assms(1) have "j < k" by simp
  then have "j * 8 + 8 \<le> length s" using assms(1) by simp
  then show ?thesis
    by (simp add: c)
qed

text \<open>
  Claim C5. For every \<open>k \<ge> 0\<close> and every bit string of length \<open>8k\<close>, cutting the string
  into consecutive 8-character chunks, as \<open>handle_flipped_results\<close> does with the joined
  results and as \<open>run_protocol\<close> does with the decoded binary, and joining the chunks again
  gives the string back; there are \<open>k\<close> chunks and each has exactly 8 characters.
\<close>

theorem byte_chunking_roundtrip:
  assumes "length s = 8 * k"
  shows "concat (handle_flipped_results [s]) = s
       \<and> concat (bb84_byte_slices s) = s
       \<and> bb84_byte_slices s = handle_flipped_results [s]
       \<and> length (bb84_byte_slices s) = k
       \<and> (\<forall>c \<in> set (bb84_byte_slices s). length c = 8)"
proof -
  have "concat (handle_flipped_results [s]) = s"
    by (simp add: handle_flipped_results_def concat_byte_slices)
  moreover have "concat (bb84_byte_slices s) = s"
    by (simp add: bb84_byte_slices_def concat_byte_slices)
  moreover have "bb84_byte_slices s = handle_flipped_results [s]"
    by (simp add: bb84_byte_slices_def handle_flipped_results_def)
  moreover have "length (bb84_byte_slices s) = k"
    unfolding bb84_byte_slices_def using assms by (rule length_byte_slices)
  moreover have "\<forall>c \<in> set (bb84_byte_slices s). length c = 8"
    unfolding bb84_byte_slices_def using assms byte_slices_all_8 by blast
  ultimately show ?thesis by blast
qed

theorem byte_chunking_roundtrip_witness:
  "length ''0100100001101001'' = 8 * (2::nat)
   \<and> concat (handle_flipped_results [''0100100001101001'']) = ''0100100001101001''
   \<and> bb84_byte_slices ''0100100001101001'' = [''01001000'', ''01101001'']"
proof -
  have h: "length ''0100100001101001'' = 8 * (2::nat)" by simp
  have "bb84_byte_slices ''0100100001101001'' = [''01001000'', ''01101001'']"
    by (simp add: bb84_byte_slices_def py_range_step_def py_slice_def upt_rec)
  with h byte_chunking_roundtrip [OF h] show ?thesis by simp
qed

section \<open>The shot-count estimators\<close>

text \<open>
  Claim C4. The value returned by \<open>calculate_adaptive_shots\<close> is an integer number of
  shots. The code does not keep this in the branch taken for \<open>confidence_level > 0.90\<close>:
  with \<open>circuit_complexity = 1\<close> and \<open>confidence_level = 1.0\<close> the BB84 variant (defaults
  \<open>base_shots = 250\<close>, \<open>max_shots = 4096\<close>) returns the float \<open>251.5\<close> and the teleporter
  variant (defaults \<open>0\<close> and \<open>5\<close>) returns the float \<open>1.5\<close>.
\<close>

theorem adaptive_shots_float_result:
  "bb84_calculate_adaptive_shots 1 0 1 250 4096 = Inr (PyFloat (Finite (503 / 2)))
   \<and> qdt_calculate_adaptive_shots 1 1 0 5 = Inr (PyFloat (Finite (3 / 2)))"
  by code_simp

section \<open>The plurality vote\<close>

lemma py_max_from_mem: "py_max_from key best xs \<in> set (best # xs)"
  by (induction xs arbitrary: best) auto

lemma py_max_from_ge_best: "key best \<le> key (py_max_from key best xs)"
proof (induction xs arbitrary: best)
  case Nil
  show ?case by simp
next
  case (Cons x xs)
  have "key best \<le> key (if key best < key x then x else best)"
    by (simp add: less_imp_le)
  also have "\<dots> \<le> key (py_max_from key (if key best < key x then x else best) xs)"
    by (rule Cons.IH)
  finally show ?case by simp
qed

lemma py_max_from_ge: "y \<in> set (best # xs) \<Longrightarrow> key y \<le> key (py_max_from key best xs)"
proof (induction xs arbitrary: best)
  case Nil
  then show ?case by simp
next
  case (Cons x xs)
  let ?b = "if key best < key x then x else best"
  from Cons.prems consider "y = best" | "y = x" | "y \<in> set xs" by auto
  then show ?case
  proof cases
    case 1
    then show ?thesis using py_max_from_ge_best [of key best "x # xs"] by simp
  next
    case 2
    have "key x \<le> key ?b" by (simp add: not_less)
    also have "\<dots> \<le> key (py_max_from key ?b xs)" by (rule py_max_from_ge_best)
    finally show ?thesis using 2 by simp
  next
    case 3
    then have "y \<in> set (?b # xs)" by simp
    then have "key y \<le> key (py_max_from key ?b xs)" by (rule Cons.IH)
    then show ?thesis by simp
  qed
qed

lemma most_frequent_Cons:
  "most_frequent (c # cs) = Inr (py_max_from (counts_get (c # cs)) (fst c) (map fst cs))"
  by (simp add: most_frequent_def py_max_key_def)

lemma most_frequent_mem:
  assumes "most_frequent cs = Inr res"
  shows "res \<in> set (map fst cs)"
proof (cases cs)
  case Nil
  with assms show ?thesis
    by (simp add: most_frequent_def py_max_key_def)
next
  case (Cons c rest)
  with assms have "res = py_max_from (counts_get cs) (fst c) (map fst rest)"
    by (simp add: most_frequent_Cons)
  then have "res \<in> set (fst c # map fst rest)"
    by (simp only: py_max_from_mem)
  with Cons show ?thesis by simp
qed

lemma most_frequent_ge:
  assumes "most_frequent cs = Inr res" and "k \<in> set (map fst cs)"
  shows "counts_get cs k \<le> counts_get cs res"
proof (cases cs)
  case Nil
  with assms show ?thesis by simp
next
  case (Cons c rest)
  with assms(1) have res: "res = py_max_from (counts_get cs) (fst c) (map fst rest)"
    by (simp add: most_frequent_Cons)
  from assms(2) Cons have "k \<in> set (fst c # map fst rest)"
    by simp
  then have "counts_get cs k \<le> counts_get cs (py_max_from (counts_get cs) (fst c) (map fst rest))"
    by (rule py_max_from_ge)
  with res show ?thesis by simp
qed

lemma most_frequent_nonempty: "cs \<noteq> [] \<Longrightarrow> \<exists>res. most_frequent cs = Inr res"
  by (cases cs) (simp_all add: most_frequent_def py_max_key_def)

lemma most_frequent_plurality:
  assumes "distinct (map fst cs)" and "most_frequent cs = Inr res"
  shows "\<exists>n. (res, n) \<in> set cs \<and> (\<forall>(k, m) \<in> set cs. m \<le> n)"
proof -
  from assms(2) have "res \<in> set (map fst cs)" by (rule most_frequent_mem)
  then obtain n where n: "(res, n) \<in> set cs" by auto
  with assms(1) have get_res: "counts_get cs res = Some n"
    by (simp add: counts_get_def)
  have "m \<le> n" if "(k, m) \<in> set cs" for k m
  proof -
    from that assms(1) have "counts_get cs k = Some m"
      by (simp add: counts_get_def)
    moreover from that have "k \<in> set (map fst cs)" by force
    ultimately have "Some m \<le> Some n"
      using most_frequent_ge [OF assms(2), of k] get_res by simp
    then show ?thesis by simp
  qed
  with n show ?thesis by blast
qed

text \<open>
  Claim C7. For every executed circuit, in \<open>run_protocol\<close> and in \<open>run_simulation\<close>:
  when the simulator returns a non-empty dict of counts, the measurement step returns, and
  the outcome it selects is a key of the counts whose count is greater than or equal to
  the count of every outcome. BB84 records this outcome itself; the teleporter records
  the flip of its first character (an outcome that is the empty string has no first
  character: \<open>IndexError\<close>). An exception of the simulator is passed on, and an empty
  dict makes \<open>max\<close> raise \<open>ValueError\<close>.
\<close>

theorem plurality_selection:
  "(bb84_simulate env noise sh i b = Inr cs \<and> cs \<noteq> [] \<and> distinct (map fst cs)
      \<longrightarrow> (\<exists>res n. bb84_measure env noise sh i b = Inr res
              \<and> (res, n) \<in> set cs \<and> (\<forall>(k, m) \<in> set cs. m \<le> n)))
   \<and> (qdt_simulate env noise i qc = Inr cs \<and> cs \<noteq> [] \<and> distinct (map fst cs)
      \<longrightarrow> (\<exists>res n. (res, n) \<in> set cs \<and> (\<forall>(k, m) \<in> set cs. m \<le> n)
              \<and> qdt_measure env noise i qc =
                  (case res of [] \<Rightarrow> Inl IndexError | r0 # _ \<Rightarrow> Inr (bit_flipper env [r0]))))
   \<and> (bb84_simulate env noise sh i b = Inl e \<longrightarrow> bb84_measure env noise sh i b = Inl e)
   \<and> (qdt_simulate env noise i qc = Inl e \<longrightarrow> qdt_measure env noise i qc = Inl e)
   \<and> (bb84_simulate env noise sh i b = Inr [] \<longrightarrow> bb84_measure env noise sh i b = Inl ValueError)
   \<and> (qdt_simulate env noise i qc = Inr [] \<longrightarrow> qdt_measure env noise i qc = Inl ValueError)"
proof (intro conjI impI)
  assume h: "bb84_simulate env noise sh i b = Inr cs \<and> cs \<noteq> [] \<and> distinct (map fst cs)"
  then obtain res where res: "most_frequent cs = Inr res"
    using most_frequent_nonempty by blast
  with h have "bb84_measure env noise sh i b = Inr res"
    by (simp add: bb84_measure_def)
  moreover from h res have "\<exists>n. (res, n) \<in> set cs \<and> (\<forall>(k, m) \<in> set cs. m \<le> n)"
    using most_frequent_plurality by blast
  ultimately show "\<exists>res n. bb84_measure env noise sh i b = Inr res
      \<and> (res, n) \<in> set cs \<and> (\<forall>(k, m) \<in> set cs. m \<le> n)"
    by blast
next
  assume h: "qdt_simulate env noise i qc = Inr cs \<and> cs \<noteq> [] \<and> distinct (map fst cs)"
  then obtain res where res: "most_frequent cs = Inr res"
    using most_frequent_nonempty by blast
  with h have "qdt_measure env noise i qc =
      (case res of [] \<Rightarrow> Inl IndexError | r0 # _ \<Rightarrow> Inr (bit_flipper env [r0]))"
    by (simp add: qdt_measure_def split: list.splits)
  moreover from h res have "\<exists>n. (res, n) \<in> set cs \<and> (\<forall>(k, m) \<in> set cs. m \<le> n)"
    using most_frequent_plurality by blast
  ultimately show "\<exists>res n. (res, n) \<in> set cs \<and> (\<forall>(k, m) \<in> set cs. m \<le> n)
      \<and> qdt_measure env noise i qc =
          (case res of [] \<Rightarrow> Inl IndexError | r0 # _ \<Rightarrow> Inr (bit_flipper env [r0]))"
    by blast
next
  assume "bb84_simulate env noise sh i b = Inl e"
  then show "bb84_measure env noise sh i b = Inl e"
    by (simp add: bb84_measure_def)
next
  assume "qdt_simulate env noise i qc = Inl e"
  then show "qdt_measure env noise i qc = Inl e"
    by (simp add: qdt_measure_def)
next
  assume "bb84_simulate env noise sh i b = Inr []"
  then show "bb84_measure env noise sh i b = Inl ValueError"
    by (simp add: bb84_measure_def most_frequent_def py_max_key_def)
next
  assume "qdt_simulate env noise i qc = Inr []"
  then show "qdt_measure env noise i qc = Inl ValueError"
    by (simp add: qdt_measure_def most_frequent_def py_max_key_def)
qed

theorem plurality_selection_witness:
  "bb84_simulate
     (ref_collaborators\<lparr>basic_aer_execute := \<lambda>i qc sh. Inr [(''0'', 412), (''1'', 612)]\<rparr>)
     False (PyInt 1024) 0 (CHR ''1'') = Inr [(''0'', 412), (''1'', 612)]
   \<and> [(''0'', 412), (''1'', 612 :: nat)] \<noteq> []
   \<and> distinct (map fst [(''0'', 412), (''1'', 612 :: nat)])
   \<and> bb84_measure
     (ref_collaborators\<lparr>basic_aer_execute := \<lambda>i qc sh. Inr [(''0'', 412), (''1'', 612)]\<rparr>)
     False (PyInt 1024) 0 (CHR ''1'') = Inr ''1''
   \<and> (\<exists>res n. bb84_measure
     (ref_collaborators\<lparr>basic_aer_execute := \<lambda>i qc sh. Inr [(''0'', 412), (''1'', 612)]\<rparr>)
     False (PyInt 1024) 0 (CHR ''1'') = Inr res
       \<and> (res, n) \<in> set [(''0'', 412), (''1'', 612 :: nat)]
       \<and> (\<forall>(k, m) \<in> set [(''0'', 412), (''1'', 612 :: nat)]. m \<le> n))"
proof -
  let ?env = "ref_collaborators\<lparr>basic_aer_execute := \<lambda>i qc sh. Inr [(''0'', 412), (''1'', 612)]\<rparr>"
  let ?cs = "[(''0'', 412), (''1'', 612 :: nat)]"
  have sim: "bb84_simulate ?env False (PyInt 1024) 0 (CHR ''1'') = Inr ?cs"
    by (simp add: bb84_simulate_def)
  have ne: "?cs \<noteq> []" and d: "distinct (map fst ?cs)"
    by simp_all
  have m: "bb84_measure ?env False (PyInt 1024) 0 (CHR ''1'') = Inr ''1''"
    by (simp add: bb84_measure_def sim most_frequent_def py_max_key_def counts_get_def)
  from plurality_selection [THEN conjunct1, rule_format, of ?env False "PyInt 1024" 0 "CHR ''1''" ?cs]
    sim ne d
  have "\<exists>res n. bb84_measure ?env False (PyInt 1024) 0 (CHR ''1'') = Inr res
       \<and> (res, n) \<in> set ?cs \<and> (\<forall>(k, m) \<in> set ?cs. m \<le> n)"
    by blast
  with sim ne d m show ?thesis by blast
qed

section \<open>Construction of the teleporter\<close>

lemma map_nth_upt: "map (\<lambda>i. f (xs ! i)) [0 ..< length xs] = map f xs"
  by (rule nth_equalityI) simp_all

lemma create_circuits_fresh:
  "create_circuits \<lparr>shots = s, text_to_send = t, binary_text = bin,
       circuits = map (\<lambda>_. QuantumCircuit 6 6) [0 ..< length bin], noise_model = n\<rparr>
   = Inr \<lparr>shots = s, text_to_send = t, binary_text = bin,
       circuits = map (\<lambda>b. create_circuit b (QuantumCircuit 6 6)) bin, noise_model = n\<rparr>"
proof -
  have "map (\<lambda>i. create_circuit (bin ! i) (map (\<lambda>_. QuantumCircuit 6 6) [0 ..< length bin] ! i))
          [0 ..< length bin]
        = map (\<lambda>i. create_circuit (bin ! i) (QuantumCircuit 6 6)) [0 ..< length bin]"
    by simp
  also have "\<dots> = map (\<lambda>b. create_circuit b (QuantumCircuit 6 6)) bin"
    by (rule map_nth_upt)
  finally show ?thesis
    by (simp add: create_circuits_def)
qed

text \<open>The object that \<open>__init__\<close> builds from a text.\<close>

lemma qdt_init_text:
  assumes "\<not> truthy file_path" and "t \<noteq> []"
  shows "qdt_init env sh file_path (Some t) nm =
         Inr \<lparr>shots = sh, text_to_send = t, binary_text = convert_text_to_binary env t,
              circuits = map (\<lambda>b. create_circuit b (QuantumCircuit 6 6))
                             (convert_text_to_binary env t),
              noise_model = nm\<rparr>"
proof (cases file_path)
  case None
  with assms show ?thesis
    by (simp add: qdt_init_def create_circuits_fresh Let_def)
next
  case (Some p)
  with assms have "p = []" by simp
  with Some assms show ?thesis
    by (simp add: qdt_init_def create_circuits_fresh Let_def)
qed

lemma qdt_init_file:
  assumes "path \<noteq> []"
  shows "qdt_init env sh (Some path) text_arg nm =
         (case text_from_file env path of
            Inl e \<Rightarrow> Inl e
          | Inr t \<Rightarrow>
              Inr \<lparr>shots = sh, text_to_send = t, binary_text = convert_text_to_binary env t,
                   circuits = map (\<lambda>b. create_circuit b (QuantumCircuit 6 6))
                                  (convert_text_to_binary env t),
                   noise_model = nm\<rparr>)"
proof -
  from assms obtain p ps where "path = p # ps"
    by (cases path) auto
  then show ?thesis
    by (simp add: qdt_init_def create_circuits_fresh Let_def split: sum.splits)
qed

lemma qdt_init_absent:
  assumes "\<not> truthy file_path" and "\<not> truthy text_arg"
  shows "qdt_init env sh file_path text_arg nm = Inl ValueError"
  using assms by (simp add: qdt_init_def)




section \<open>The noiseless teleportation circuit\<close>

lemma create_circuit_not_1:
  "b \<noteq> CHR ''1'' \<Longrightarrow> create_circuit b qc = create_circuit (CHR ''0'') qc"
  by (simp add: create_circuit_def)

lemma teleport_outcomes_1:
  "ideal_outcomes (create_circuit (CHR ''1'') (QuantumCircuit 6 6)) =
     [''000000'', ''010010'', ''001000'', ''011010'']"
  by code_simp

lemma teleport_outcomes_0:
  "ideal_outcomes (create_circuit (CHR ''0'') (QuantumCircuit 6 6)) =
     [''100100'', ''110110'', ''101100'', ''111110'']"
  by code_simp

text \<open>
  The first character of every outcome of non-zero probability is the measurement of
  qubit 2, the receiving qubit: it is the complement of the encoded bit.
\<close>

lemma teleport_outcome_head:
  assumes "k \<in> set (ideal_outcomes (create_circuit b (QuantumCircuit 6 6)))"
  shows "\<exists>rest. k = (if b = CHR ''1'' then CHR ''0'' else CHR ''1'') # rest"
proof (cases "b = CHR ''1''")
  case True
  with assms have "k = ''000000'' \<or> k = ''010010'' \<or> k = ''001000'' \<or> k = ''011010''"
    by (simp add: teleport_outcomes_1)
  then show ?thesis
    by (elim disjE) (simp_all add: True)
next
  case False
  then have "create_circuit b (QuantumCircuit 6 6) = create_circuit (CHR ''0'') (QuantumCircuit 6 6)"
    by (rule create_circuit_not_1)
  with assms have "k \<in> set (ideal_outcomes (create_circuit (CHR ''0'') (QuantumCircuit 6 6)))"
    by simp
  then have "k = ''100100'' \<or> k = ''110110'' \<or> k = ''101100'' \<or> k = ''111110''"
    by (simp add: teleport_outcomes_0)
  then show ?thesis
    by (elim disjE) (simp_all add: False)
qed

lemma noiseless_most_frequent:
  assumes "noiseless_response qc (Inr cs)"
  shows "\<exists>res. most_frequent cs = Inr res \<and> res \<in> set (ideal_outcomes qc)"
proof -
  from assms have ne: "cs \<noteq> []" and sub: "\<forall>k \<in> set (map fst cs). k \<in> set (ideal_outcomes qc)"
    by (simp_all add: noiseless_response_def list_all_iff)
  from ne obtain res where res: "most_frequent cs = Inr res"
    using most_frequent_nonempty by blast
  then have "res \<in> set (map fst cs)" by (rule most_frequent_mem)
  with sub res show ?thesis by blast
qed

lemma qdt_measure_noiseless:
  assumes "noiseless_response (create_circuit b (QuantumCircuit 6 6))
             (qdt_simulate env noise i (create_circuit b (QuantumCircuit 6 6)))"
  shows "qdt_measure env noise i (create_circuit b (QuantumCircuit 6 6)) =
           Inr (bit_flipper env [if b = CHR ''1'' then CHR ''0'' else CHR ''1''])"
proof -
  let ?qc = "create_circuit b (QuantumCircuit 6 6)"
  from assms obtain cs where cs: "qdt_simulate env noise i ?qc = Inr cs"
    by (auto simp: noiseless_response_def split: sum.splits)
  with assms have "noiseless_response ?qc (Inr cs)" by simp
  then obtain res where res: "most_frequent cs = Inr res" "res \<in> set (ideal_outcomes ?qc)"
    using noiseless_most_frequent by blast
  from res(2) obtain rest where "res = (if b = CHR ''1'' then CHR ''0'' else CHR ''1'') # rest"
    using teleport_outcome_head by blast
  with cs res(1) show ?thesis
    by (simp add: qdt_measure_def)
qed

lemma qdt_measure_all_noiseless:
  assumes "\<forall>j < length bits.
             noiseless_response (create_circuit (bits ! j) (QuantumCircuit 6 6))
               (qdt_simulate env noise (i + j) (create_circuit (bits ! j) (QuantumCircuit 6 6)))"
  shows "qdt_measure_all env noise i (map (\<lambda>b. create_circuit b (QuantumCircuit 6 6)) bits) =
           Inr (map (\<lambda>b. bit_flipper env [if b = CHR ''1'' then CHR ''0'' else CHR ''1'']) bits)"
  using assms
proof (induction bits arbitrary: i)
  case Nil
  show ?case by simp
next
  case (Cons b bits)
  from Cons.prems have "noiseless_response (create_circuit b (QuantumCircuit 6 6))
      (qdt_simulate env noise i (create_circuit b (QuantumCircuit 6 6)))"
    by fastforce
  then have hd: "qdt_measure env noise i (create_circuit b (QuantumCircuit 6 6)) =
      Inr (bit_flipper env [if b = CHR ''1'' then CHR ''0'' else CHR ''1''])"
    by (rule qdt_measure_noiseless)
  have "\<forall>j < length bits.
          noiseless_response (create_circuit (bits ! j) (QuantumCircuit 6 6))
            (qdt_simulate env noise (Suc i + j) (create_circuit (bits ! j) (QuantumCircuit 6 6)))"
  proof (intro allI impI)
    fix j assume "j < length bits"
    then have "Suc j < length (b # bits)" by simp
    with Cons.prems have "noiseless_response (create_circuit ((b # bits) ! Suc j) (QuantumCircuit 6 6))
        (qdt_simulate env noise (i + Suc j) (create_circuit ((b # bits) ! Suc j) (QuantumCircuit 6 6)))"
      by blast
    then show "noiseless_response (create_circuit (bits ! j) (QuantumCircuit 6 6))
        (qdt_simulate env noise (Suc i + j) (create_circuit (bits ! j) (QuantumCircuit 6 6)))"
      by simp
  qed
  then have "qdt_measure_all env noise (Suc i) (map (\<lambda>b. create_circuit b (QuantumCircuit 6 6)) bits) =
      Inr (map (\<lambda>b. bit_flipper env [if b = CHR ''1'' then CHR ''0'' else CHR ''1'']) bits)"
    by (rule Cons.IH)
  with hd show ?case by simp
qed

lemma flipped_bits_restore:
  assumes "bit_flipper env ''0'' = ''1''" and "bit_flipper env ''1'' = ''0''"
    and "list_all is_bit bits"
  shows "concat (map (\<lambda>b. bit_flipper env [if b = CHR ''1'' then CHR ''0'' else CHR ''1'']) bits) = bits"
  using assms(3)
proof (induction bits)
  case Nil
  show ?case by simp
next
  case (Cons b bits)
  then have "b = CHR ''0'' \<or> b = CHR ''1''" by (simp add: is_bit_def)
  with Cons assms(1,2) show ?case by auto
qed

section \<open>\<open>run_simulation\<close>\<close>

lemma qdt_default_shots:
  "qdt_calculate_adaptive_shots n float_0_90 0 5 = Inr (PyInt (if 5 < n * 5 then 5 else n * 5))"
  by (simp add: qdt_calculate_adaptive_shots_def py_min2_def py_lt_def)

lemma run_simulation_unfold:
  "run_simulation env self =
     (if circuits self = [] then Inl TypeError
      else case qdt_measure_all env (noise_model self) 0 (circuits self) of
             Inl e \<Rightarrow> Inl e
           | Inr flipped_results \<Rightarrow>
               (case convert_binary_to_text env (handle_flipped_results flipped_results) of
                  Inl e \<Rightarrow> Inl e
                | Inr converted_chunks \<Rightarrow>
                    Inr ((converted_chunks, converted_chunks = text_to_send self),
                         self\<lparr>shots :=
                           PyInt (if 5 < int (length (instructions (hd (circuits self)))) * 5 then 5
                                  else int (length (instructions (hd (circuits self)))) * 5)\<rparr>)))"
proof (cases "circuits self")
  case Nil
  then show ?thesis
    by (simp add: run_simulation_def)
next
  case (Cons c0 cs)
  then show ?thesis
    by (simp add: run_simulation_def qdt_default_shots Let_def split: sum.splits)
qed

lemma length_create_circuit:
  "length (instructions (create_circuit b (QuantumCircuit 6 6))) = 23"
  by (simp add: create_circuit_def QuantumCircuit_def qc_x_def qc_h_def qc_cx_def qc_cz_def
      qc_ccx_def qc_barrier_def qc_measure_def append_gates_def Let_def)

lemma run_simulation_noiseless:
  assumes bits: "list_all is_bit (convert_text_to_binary env t)"
    and nonempty: "convert_text_to_binary env t \<noteq> []"
    and codec: "convert_binary_to_text env (handle_flipped_results [convert_text_to_binary env t]) = Inr t"
    and flip: "bit_flipper env ''0'' = ''1''" "bit_flipper env ''1'' = ''0''"
    and noiseless: "\<forall>j < length (convert_text_to_binary env t).
        noiseless_response (create_circuit (convert_text_to_binary env t ! j) (QuantumCircuit 6 6))
          (qdt_simulate env nm j (create_circuit (convert_text_to_binary env t ! j) (QuantumCircuit 6 6)))"
  shows "run_simulation env
           \<lparr>shots = sh, text_to_send = t, binary_text = convert_text_to_binary env t,
            circuits = map (\<lambda>b. create_circuit b (QuantumCircuit 6 6)) (convert_text_to_binary env t),
            noise_model = nm\<rparr>
         = Inr ((t, True),
             \<lparr>shots = PyInt 5, text_to_send = t, binary_text = convert_text_to_binary env t,
              circuits = map (\<lambda>b. create_circuit b (QuantumCircuit 6 6)) (convert_text_to_binary env t),
              noise_model = nm\<rparr>)"
proof -
  let ?bin = "convert_text_to_binary env t"
  let ?cs = "map (\<lambda>b. create_circuit b (QuantumCircuit 6 6)) ?bin"
  let ?fr = "map (\<lambda>b. bit_flipper env [if b = CHR ''1'' then CHR ''0'' else CHR ''1'']) ?bin"
  from noiseless have "\<forall>j < length ?bin.
        noiseless_response (create_circuit (?bin ! j) (QuantumCircuit 6 6))
          (qdt_simulate env nm (0 + j) (create_circuit (?bin ! j) (QuantumCircuit 6 6)))"
    by simp
  then have all: "qdt_measure_all env nm 0 ?cs = Inr ?fr"
    by (rule qdt_measure_all_noiseless)
  have "concat ?fr = ?bin"
    using flip bits by (rule flipped_bits_restore)
  then have "handle_flipped_results ?fr = handle_flipped_results [?bin]"
    by (simp add: handle_flipped_results_def)
  with codec have conv: "convert_binary_to_text env (handle_flipped_results ?fr) = Inr t"
    by simp
  from nonempty have ne: "?cs \<noteq> []" and hd: "hd ?cs = create_circuit (hd ?bin) (QuantumCircuit 6 6)"
    by (simp_all add: hd_map)
  show ?thesis
    unfolding run_simulation_unfold
    using nonempty by (simp add: all conv hd length_create_circuit)
qed

section \<open>The match flag and the shots argument\<close>

text \<open>
  Claim C6. Whenever \<open>run_simulation\<close> or \<open>run_protocol\<close> returns, the second component
  of the returned pair is \<open>True\<close> if and only if the first component, the received text,
  equals the text that was sent; the sent text stored in the object is not changed by
  the run.
\<close>

lemma run_simulation_flag:
  assumes "run_simulation env self = Inr ((received, is_match), self')"
  shows "(is_match \<longleftrightarrow> received = text_to_send self) \<and> text_to_send self' = text_to_send self"
proof -
  from assms have ne: "circuits self \<noteq> []"
    unfolding run_simulation_unfold by (auto split: if_splits)
  from assms ne obtain fr where fr: "qdt_measure_all env (noise_model self) 0 (circuits self) = Inr fr"
    unfolding run_simulation_unfold by (cases "qdt_measure_all env (noise_model self) 0 (circuits self)") auto
  from assms ne fr obtain conv where
    conv: "convert_binary_to_text env (handle_flipped_results fr) = Inr conv"
    unfolding run_simulation_unfold
    by (cases "convert_binary_to_text env (handle_flipped_results fr)") auto
  from assms ne fr conv show ?thesis
    unfolding run_simulation_unfold by auto
qed

lemma run_protocol_flag:
  assumes "run_protocol env bb = Inr ((decoded, bb_match), bb')"
  shows "(bb_match \<longleftrightarrow> decoded = bb_data bb) \<and> bb_data bb' = bb_data bb"
proof -
  define sh where "sh = (if py_eq (bb_shots bb) (PyInt (- 1))
               then bb84_calculate_adaptive_shots (int (length (binary_data bb)))
                      (int (length (binary_data bb))) float_0_90 250 4096
               else Inr (bb_shots bb))"
  from assms obtain ns where ns: "sh = Inr ns"
    unfolding run_protocol_def Let_def sh_def [symmetric] by (cases sh) auto
  from assms ns obtain fr where
    fr: "bb84_measure_all env (bb_noise_model bb) ns 0 (binary_data bb) = Inr fr"
    unfolding run_protocol_def Let_def sh_def [symmetric]
    by (cases "bb84_measure_all env (bb_noise_model bb) ns 0 (binary_data bb)") auto
  from assms ns fr obtain conv where
    conv: "convert_binary_to_text env (bb84_byte_slices (concat fr)) = Inr conv"
    unfolding run_protocol_def Let_def sh_def [symmetric]
    by (cases "convert_binary_to_text env (bb84_byte_slices (concat fr))") auto
  from assms ns fr conv obtain dec where
    dec: "decompress_data env conv (bb_compression bb) = Inr dec"
    unfolding run_protocol_def Let_def sh_def [symmetric]
    by (cases "decompress_data env conv (bb_compression bb)") auto
  from assms ns fr conv dec show ?thesis
    unfolding run_protocol_def Let_def sh_def [symmetric] by auto
qed

theorem match_flag_correct:
  "(run_simulation env self = Inr ((received, is_match), self')
      \<longrightarrow> (is_match \<longleftrightarrow> received = text_to_send self) \<and> text_to_send self' = text_to_send self)
   \<and> (run_protocol env bb = Inr ((decoded, bb_match), bb')
      \<longrightarrow> (bb_match \<longleftrightarrow> decoded = bb_data bb) \<and> bb_data bb' = bb_data bb)"
  using run_simulation_flag [of env self received is_match self']
    run_protocol_flag [of env bb decoded bb_match bb']
  by blast

section \<open>Runs with the reference collaborators\<close>

lemma ref_simulator_noiseless:
  assumes "ideal_outcomes qc = k # ks"
  shows "noiseless_response qc (ref_simulator qc n)"
  using assms by (simp add: noiseless_response_def ref_simulator_def)

lemma ref_teleport_noiseless:
  "noiseless_response (create_circuit b (QuantumCircuit 6 6))
     (qdt_simulate ref_collaborators nm j (create_circuit b (QuantumCircuit 6 6)))"
proof -
  have "\<exists>k ks. ideal_outcomes (create_circuit b (QuantumCircuit 6 6)) = k # ks"
  proof (cases "b = CHR ''1''")
    case True
    then show ?thesis by (simp add: teleport_outcomes_1)
  next
    case False
    then have "create_circuit b (QuantumCircuit 6 6) = create_circuit (CHR ''0'') (QuantumCircuit 6 6)"
      by (rule create_circuit_not_1)
    then show ?thesis by (simp add: teleport_outcomes_0)
  qed
  then obtain k ks where "ideal_outcomes (create_circuit b (QuantumCircuit 6 6)) = k # ks"
    by blast
  then have "noiseless_response (create_circuit b (QuantumCircuit 6 6))
      (ref_simulator (create_circuit b (QuantumCircuit 6 6)) n)" for n
    by (rule ref_simulator_noiseless)
  then show ?thesis
    by (simp add: qdt_simulate_def ref_collaborators_def)
qed

lemma ref_binary_A: "convert_text_to_binary ref_collaborators ''A'' = ''01000001''"
  by (simp add: ref_collaborators_def ref_convert_text_to_binary_def bit_char_def)

lemma ref_codec_A:
  "convert_binary_to_text ref_collaborators (handle_flipped_results [''01000001'']) = Inr ''A''"
  by (simp add: ref_collaborators_def handle_flipped_results_def py_range_step_def py_slice_def
      is_bit_def)

lemma ref_flip:
  "bit_flipper ref_collaborators ''0'' = ''1''" "bit_flipper ref_collaborators ''1'' = ''0''"
  by (simp_all add: ref_collaborators_def ref_bit_flipper_def)

lemma ref_run_simulation_A:
  "run_simulation ref_collaborators
     \<lparr>shots = sh, text_to_send = ''A'', binary_text = convert_text_to_binary ref_collaborators ''A'',
      circuits = map (\<lambda>b. create_circuit b (QuantumCircuit 6 6))
                     (convert_text_to_binary ref_collaborators ''A''),
      noise_model = nm\<rparr>
   = Inr ((''A'', True),
       \<lparr>shots = PyInt 5, text_to_send = ''A'',
        binary_text = convert_text_to_binary ref_collaborators ''A'',
        circuits = map (\<lambda>b. create_circuit b (QuantumCircuit 6 6))
                       (convert_text_to_binary ref_collaborators ''A''),
        noise_model = nm\<rparr>)"
proof (rule run_simulation_noiseless)
  show "list_all is_bit (convert_text_to_binary ref_collaborators ''A'')"
    by (simp add: ref_binary_A is_bit_def)
  show "convert_text_to_binary ref_collaborators ''A'' \<noteq> []"
    by (simp add: ref_binary_A)
  show "convert_binary_to_text ref_collaborators
          (handle_flipped_results [convert_text_to_binary ref_collaborators ''A'']) = Inr ''A''"
    by (simp only: ref_binary_A ref_codec_A)
  show "bit_flipper ref_collaborators ''0'' = ''1''" "bit_flipper ref_collaborators ''1'' = ''0''"
    by (rule ref_flip)+
  show "\<forall>j < length (convert_text_to_binary ref_collaborators ''A'').
        noiseless_response
          (create_circuit (convert_text_to_binary ref_collaborators ''A'' ! j) (QuantumCircuit 6 6))
          (qdt_simulate ref_collaborators nm j
            (create_circuit (convert_text_to_binary ref_collaborators ''A'' ! j) (QuantumCircuit 6 6)))"
    using ref_teleport_noiseless by blast
qed

theorem match_flag_correct_witness:
  "run_simulation ref_collaborators
     \<lparr>shots = PyInt 1, text_to_send = ''A'',
      binary_text = convert_text_to_binary ref_collaborators ''A'',
      circuits = map (\<lambda>b. create_circuit b (QuantumCircuit 6 6))
                     (convert_text_to_binary ref_collaborators ''A''),
      noise_model = False\<rparr>
   = Inr ((''A'', True),
       \<lparr>shots = PyInt 5, text_to_send = ''A'',
        binary_text = convert_text_to_binary ref_collaborators ''A'',
        circuits = map (\<lambda>b. create_circuit b (QuantumCircuit 6 6))
                       (convert_text_to_binary ref_collaborators ''A''),
        noise_model = False\<rparr>)
   \<and> (True \<longleftrightarrow> ''A'' = text_to_send
       \<lparr>shots = PyInt 1, text_to_send = ''A'',
        binary_text = convert_text_to_binary ref_collaborators ''A'',
        circuits = map (\<lambda>b. create_circuit b (QuantumCircuit 6 6))
                       (convert_text_to_binary ref_collaborators ''A''),
        noise_model = False\<rparr>)"
proof -
  note run = ref_run_simulation_A [of "PyInt 1" False]
  from match_flag_correct [THEN conjunct1, rule_format, OF run] run
  show ?thesis by blast
qed

text \<open>
  Claim C10. The \<open>shots\<close> argument of the constructor of the teleporter has no effect:
  for any two values of it, constructing the object and running \<open>run_simulation\<close> gives
  the same outcome, the same returned pair and the same final object. \<open>run_simulation\<close>
  overwrites \<open>self.shots\<close> before it is read, with an integer between 0 and 5, and the
  simulator is called with \<open>shots=1\<close> without noise and with no \<open>shots\<close> argument with
  noise.
\<close>

theorem shots_argument_unused:
  "(case qdt_init env s1 file_path text_arg nm of
      Inl e \<Rightarrow> Inl e | Inr obj \<Rightarrow> run_simulation env obj)
   = (case qdt_init env s2 file_path text_arg nm of
      Inl e \<Rightarrow> Inl e | Inr obj \<Rightarrow> run_simulation env obj)
   \<and> run_simulation env (self\<lparr>shots := s1\<rparr>) = run_simulation env (self\<lparr>shots := s2\<rparr>)
   \<and> (\<forall>res self'. run_simulation env self = Inr (res, self')
         \<longrightarrow> (\<exists>n. shots self' = PyInt n \<and> 0 \<le> n \<and> n \<le> 5))
   \<and> qdt_simulate env False i qc = basic_aer_execute env i qc (PyInt 1)
   \<and> qdt_simulate env True i qc = aer_simulator_run env i qc None"
proof (intro conjI allI impI)
  show upd: "run_simulation env (self\<lparr>shots := s1\<rparr>) = run_simulation env (self\<lparr>shots := s2\<rparr>)"
    for self :: "'a teleporter"
    unfolding run_simulation_unfold by (simp split: sum.splits)
  have "(\<exists>e. qdt_init env s1 file_path text_arg nm = Inl e
             \<and> qdt_init env s2 file_path text_arg nm = Inl e)
      \<or> (\<exists>obj. qdt_init env s1 file_path text_arg nm = Inr (obj\<lparr>shots := s1\<rparr>)
             \<and> qdt_init env s2 file_path text_arg nm = Inr (obj\<lparr>shots := s2\<rparr>))"
  proof (cases "truthy file_path")
    case True
    then obtain path where p: "file_path = Some path" "path \<noteq> []"
      by (cases file_path) auto
    show ?thesis
    proof (cases "text_from_file env path")
      case (Inl e)
      then show ?thesis
        by (simp add: p(1) qdt_init_file [OF p(2)])
    next
      case (Inr t)
      let ?obj = "\<lparr>shots = s1, text_to_send = t, binary_text = convert_text_to_binary env t,
          circuits = map (\<lambda>b. create_circuit b (QuantumCircuit 6 6)) (convert_text_to_binary env t),
          noise_model = nm\<rparr>"
      from Inr have "qdt_init env s1 file_path text_arg nm = Inr (?obj\<lparr>shots := s1\<rparr>)"
        and "qdt_init env s2 file_path text_arg nm = Inr (?obj\<lparr>shots := s2\<rparr>)"
        by (simp_all add: p(1) qdt_init_file [OF p(2)])
      then show ?thesis by blast
    qed
  next
    case False
    note nofile = this
    show ?thesis
    proof (cases "truthy text_arg")
      case True
      then obtain t where t: "text_arg = Some t" "t \<noteq> []"
        by (cases text_arg) auto
      let ?obj = "\<lparr>shots = s1, text_to_send = t, binary_text = convert_text_to_binary env t,
          circuits = map (\<lambda>b. create_circuit b (QuantumCircuit 6 6)) (convert_text_to_binary env t),
          noise_model = nm\<rparr>"
      have "qdt_init env s1 file_path text_arg nm = Inr (?obj\<lparr>shots := s1\<rparr>)"
        and "qdt_init env s2 file_path text_arg nm = Inr (?obj\<lparr>shots := s2\<rparr>)"
        by (simp_all add: t(1) qdt_init_text [OF nofile t(2)])
      then show ?thesis by blast
    next
      case False
      with nofile show ?thesis
        by (simp add: qdt_init_absent)
    qed
  qed
  then show "(case qdt_init env s1 file_path text_arg nm of
      Inl e \<Rightarrow> Inl e | Inr obj \<Rightarrow> run_simulation env obj)
   = (case qdt_init env s2 file_path text_arg nm of
      Inl e \<Rightarrow> Inl e | Inr obj \<Rightarrow> run_simulation env obj)"
    using upd by auto
next
  fix res self'
  assume "run_simulation env self = Inr (res, self')"
  then show "\<exists>n. shots self' = PyInt n \<and> 0 \<le> n \<and> n \<le> 5"
    unfolding run_simulation_unfold by (auto split: if_splits sum.splits)
next
  show "qdt_simulate env False i qc = basic_aer_execute env i qc (PyInt 1)"
    by (simp add: qdt_simulate_def)
  show "qdt_simulate env True i qc = aer_simulator_run env i qc None"
    by (simp add: qdt_simulate_def)
qed

theorem shots_argument_unused_witness:
  "run_simulation ref_collaborators
     \<lparr>shots = PyInt 4000, text_to_send = ''A'',
      binary_text = convert_text_to_binary ref_collaborators ''A'',
      circuits = map (\<lambda>b. create_circuit b (QuantumCircuit 6 6))
                     (convert_text_to_binary ref_collaborators ''A''),
      noise_model = False\<rparr>
   = Inr ((''A'', True),
       \<lparr>shots = PyInt 5, text_to_send = ''A'',
        binary_text = convert_text_to_binary ref_collaborators ''A'',
        circuits = map (\<lambda>b. create_circuit b (QuantumCircuit 6 6))
                       (convert_text_to_binary ref_collaborators ''A''),
        noise_model = False\<rparr>)
   \<and> (\<exists>n. shots
       \<lparr>shots = PyInt 5, text_to_send = ''A'',
        binary_text = convert_text_to_binary ref_collaborators ''A'',
        circuits = map (\<lambda>b. create_circuit b (QuantumCircuit 6 6))
                       (convert_text_to_binary ref_collaborators ''A''),
        noise_model = False\<rparr> = PyInt n \<and> 0 \<le> n \<and> n \<le> 5)"
proof -
  note run = ref_run_simulation_A [of "PyInt 4000" False]
  from shots_argument_unused [THEN conjunct2, THEN conjunct2, THEN conjunct1, rule_format, OF run] run
  show ?thesis by blast
qed

section \<open>Construction of the BB84 object\<close>

lemma length_zfill: "length (zfill w s) = max w (length s)"
  by (cases s) (auto simp: zfill_def)

lemma zfill_no_sign:
  assumes "s = [] \<or> (hd s \<noteq> CHR ''+'' \<and> hd s \<noteq> CHR ''-'')"
  shows "zfill w s = replicate (w - length s) (CHR ''0'') @ s"
  using assms by (cases s) (auto simp: zfill_def)


lemma random_bits_no_sign:
  "map bit_char bs = [] \<or> (hd (map bit_char bs) \<noteq> CHR ''+'' \<and> hd (map bit_char bs) \<noteq> CHR ''-'')"
  by (cases bs) (auto simp: bit_char_def)

lemma bb84_init_unfold:
  "bb84_init env rng text_arg compr noise sh out lg =
     (case bb84_compress env compr (convert_text_to_binary env text_arg) of
        Inl e \<Rightarrow> Inl e
      | Inr bin1 \<Rightarrow>
          Inr (\<lparr>bb_data = text_arg, bb_compression = compr, bb_noise_model = noise,
                bb_shots = sh, output_path = out, logs = lg,
                binary_data =
                  zfill (max (length bin1) (length (convert_text_to_binary env text_arg))) bin1,
                data_length = length (convert_text_to_binary env text_arg),
                key_bits =
                  zfill (max (length bin1) (length (convert_text_to_binary env text_arg)))
                    (map bit_char (stake (length (convert_text_to_binary env text_arg)) rng)),
                base_bits =
                  zfill (max (length bin1) (length (convert_text_to_binary env text_arg)))
                    (map bit_char (stake (length (convert_text_to_binary env text_arg))
                       (sdrop (length (convert_text_to_binary env text_arg)) rng)))\<rparr>,
               sdrop (length (convert_text_to_binary env text_arg))
                 (sdrop (length (convert_text_to_binary env text_arg)) rng)))"
  by (simp add: bb84_init_def generate_random_bits_def Let_def split: sum.splits)

text \<open>
  Claim C8. After \<open>BB84Protocol.__init__\<close> completes, for every text and every compression
  setting, \<open>binary_data\<close>, \<open>key_bits\<close> and \<open>base_bits\<close> have the same length, the maximum
  of the length of the (possibly compressed) binary data and the length of the two
  random strings. The random strings are left-padded with \<open>0\<close> up to that length, and so
  is the binary data (\<open>zfill\<close> pads behind a leading sign character, which a bit string
  does not have).
\<close>

theorem bb84_operand_alignment:
  assumes "bb84_init env rng text_arg compr noise sh out lg = Inr (obj, rng')"
  shows "\<exists>bin1. bb84_compress env compr (convert_text_to_binary env text_arg) = Inr bin1
         \<and> length (binary_data obj) = max (length bin1) (data_length obj)
         \<and> length (key_bits obj) = length (binary_data obj)
         \<and> length (base_bits obj) = length (binary_data obj)
         \<and> data_length obj = length (convert_text_to_binary env text_arg)
         \<and> key_bits obj = replicate (length (binary_data obj) - data_length obj) (CHR ''0'')
                           @ map bit_char (stake (data_length obj) rng)
         \<and> base_bits obj = replicate (length (binary_data obj) - data_length obj) (CHR ''0'')
                           @ map bit_char (stake (data_length obj) (sdrop (data_length obj) rng))
         \<and> binary_data obj = zfill (length (binary_data obj)) bin1
         \<and> (bin1 = [] \<or> (hd bin1 \<noteq> CHR ''+'' \<and> hd bin1 \<noteq> CHR ''-'') \<longrightarrow>
              binary_data obj = replicate (length (binary_data obj) - length bin1) (CHR ''0'') @ bin1)"
proof -
  let ?bin0 = "convert_text_to_binary env text_arg"
  from assms obtain bin1 where bin1: "bb84_compress env compr ?bin0 = Inr bin1"
    unfolding bb84_init_unfold by (cases "bb84_compress env compr ?bin0") auto
  let ?n = "max (length bin1) (length ?bin0)"
  let ?key0 = "map bit_char (stake (length ?bin0) rng)"
  let ?base0 = "map bit_char (stake (length ?bin0) (sdrop (length ?bin0) rng))"
  from assms bin1 have
    bd: "binary_data obj = zfill ?n bin1" and
    dl: "data_length obj = length ?bin0" and
    kb: "key_bits obj = zfill ?n ?key0" and
    bb: "base_bits obj = zfill ?n ?base0"
    unfolding bb84_init_unfold by auto
  have n: "length (binary_data obj) = ?n"
    by (simp add: bd length_zfill)
  have lk: "length ?key0 = length ?bin0" and lb: "length ?base0 = length ?bin0"
    by simp_all
  have "key_bits obj = replicate (?n - length ?bin0) (CHR ''0'') @ ?key0"
    unfolding kb using zfill_no_sign [OF random_bits_no_sign, of ?n "stake (length ?bin0) rng"]
    by (simp only: lk)
  moreover have "base_bits obj = replicate (?n - length ?bin0) (CHR ''0'') @ ?base0"
    unfolding bb using zfill_no_sign [OF random_bits_no_sign, of ?n "stake (length ?bin0) (sdrop (length ?bin0) rng)"]
    by (simp only: lb)
  moreover have "length (key_bits obj) = ?n" "length (base_bits obj) = ?n"
    by (simp_all add: kb bb length_zfill)
  moreover have "bin1 = [] \<or> (hd bin1 \<noteq> CHR ''+'' \<and> hd bin1 \<noteq> CHR ''-'') \<longrightarrow>
      binary_data obj = replicate (?n - length bin1) (CHR ''0'') @ bin1"
    using zfill_no_sign [of bin1 ?n] bd by simp
  ultimately show ?thesis
    using bin1 n dl bd by (intro exI [of _ bin1]) simp
qed

lemma stake_sconst: "stake n (sconst x) = replicate n x"
  unfolding stake_siterate id_funpow by (simp add: map_replicate_const)

theorem bb84_operand_alignment_witness:
  "(\<exists>obj rng'. bb84_init ref_collaborators (sconst True) ''A'' (CStr ''adaptive'') False
        (PyInt (- 1)) None True = Inr (obj, rng')
      \<and> length (binary_data obj) = 64 \<and> length (key_bits obj) = 64 \<and> length (base_bits obj) = 64
      \<and> key_bits obj = replicate (64 - 8) (CHR ''0'') @ ''11111111'')"
proof -
  let ?r = "bb84_init ref_collaborators (sconst True) ''A'' (CStr ''adaptive'') False
        (PyInt (- 1)) None True"
  have c: "bb84_compress ref_collaborators (CStr ''adaptive'')
         (convert_text_to_binary ref_collaborators ''A'') = Inr (ref_convert_text_to_binary ''01000001'')"
    by (simp add: bb84_compress_def ref_binary_A) (simp add: ref_collaborators_def)
  have len: "length (ref_convert_text_to_binary ''01000001'') = 64"
    by (simp add: ref_convert_text_to_binary_def)
  from c obtain obj rng' where init: "?r = Inr (obj, rng')"
    unfolding bb84_init_unfold by simp
  from bb84_operand_alignment [OF init] obtain bin1 where
    b1: "bb84_compress ref_collaborators (CStr ''adaptive'')
           (convert_text_to_binary ref_collaborators ''A'') = Inr bin1" and
    l1: "length (binary_data obj) = max (length bin1) (data_length obj)" and
    l2: "length (key_bits obj) = length (binary_data obj)" and
    l3: "length (base_bits obj) = length (binary_data obj)" and
    l4: "data_length obj = length (convert_text_to_binary ref_collaborators ''A'')" and
    k: "key_bits obj = replicate (length (binary_data obj) - data_length obj) (CHR ''0'')
                           @ map bit_char (stake (data_length obj) (sconst True))"
    by blast
  from b1 c have bin1: "bin1 = ref_convert_text_to_binary ''01000001''" by simp
  have dl: "data_length obj = 8"
    by (simp add: l4 ref_binary_A)
  have n: "length (binary_data obj) = 64"
    by (simp add: l1 bin1 dl len)
  have "key_bits obj = replicate (64 - 8) (CHR ''0'') @ ''11111111''"
    unfolding k n dl stake_sconst by (simp add: bit_char_def numeral_eq_Suc)
  with n l2 l3 init show ?thesis by auto
qed

section \<open>Rounding to binary64\<close>

lemma bitlen_pos: "0 < n \<Longrightarrow> 1 \<le> bitlen n"
  using bitlen_eq_zero_iff [of n] bitlen_nonneg [of n] by linarith

lemma floor_log2_ge1:
  assumes "1 \<le> x"
  shows "2 powi (floor_log2 x) \<le> x" and "x < 2 powi (floor_log2 x + 1)"
proof -
  let ?n = "\<lfloor>x\<rfloor>"
  from assms have n: "0 < ?n" by simp
  then have b: "1 \<le> bitlen ?n" by (rule bitlen_pos)
  from bitlen_bounds [OF n] have lo: "2 ^ nat (bitlen ?n - 1) \<le> ?n" and hi: "?n < 2 ^ nat (bitlen ?n)"
    by simp_all
  have e: "floor_log2 x = bitlen ?n - 1"
    using assms by (simp add: floor_log2_def)
  have "(2::rat) powi (bitlen ?n - 1) = of_int (2 ^ nat (bitlen ?n - 1))"
    using b by (simp add: power_int_def)
  also have "\<dots> \<le> of_int ?n"
    using lo by (simp only: of_int_le_iff)
  also have "\<dots> \<le> x" by simp
  finally show "2 powi (floor_log2 x) \<le> x"
    by (simp only: e)
  have "x < of_int (?n + 1)" by (rule floor_correct [THEN conjunct2])
  also have "\<dots> \<le> of_int (2 ^ nat (bitlen ?n))"
    using hi by (simp only: of_int_le_iff)
  also have "\<dots> = (2::rat) powi (bitlen ?n)"
    using b by (simp add: power_int_def)
  finally show "x < 2 powi (floor_log2 x + 1)"
    by (simp add: e)
qed

lemma floor_log2_lt1:
  assumes "0 < x" and "x < 1"
  shows "2 powi (floor_log2 x) \<le> x" and "x < 2 powi (floor_log2 x + 1)"
proof -
  let ?r = "1 / x"
  let ?m = "\<lceil>?r\<rceil> - 1"
  from assms have r: "1 < ?r" by simp
  then have "1 < \<lceil>?r\<rceil>" by (simp add: less_ceiling_iff)
  then have m: "0 < ?m" by simp
  then have b: "1 \<le> bitlen ?m" by (rule bitlen_pos)
  from bitlen_bounds [OF m] have lo: "2 ^ nat (bitlen ?m - 1) \<le> ?m" and hi: "?m < 2 ^ nat (bitlen ?m)"
    by simp_all
  have e: "floor_log2 x = - bitlen ?m"
    using assms by (simp add: floor_log2_def)
  have p: "(2::rat) powi (- bitlen ?m) = 1 / 2 ^ nat (bitlen ?m)"
    using b by (simp add: power_int_def field_simps)
  have "?r \<le> of_int \<lceil>?r\<rceil>" by (rule le_of_int_ceiling)
  also have "\<dots> \<le> of_int (2 ^ nat (bitlen ?m))"
    using hi by (simp only: of_int_le_iff)
  finally have "?r \<le> 2 ^ nat (bitlen ?m)" by simp
  then have "1 / 2 ^ nat (bitlen ?m) \<le> x"
    using assms(1) by (simp add: field_simps)
  then show "2 powi (floor_log2 x) \<le> x"
    by (simp only: e p)
  have q: "(2::rat) powi (- bitlen ?m + 1) = 1 / 2 ^ nat (bitlen ?m - 1)"
  proof (cases "bitlen ?m = 1")
    case True
    then show ?thesis by simp
  next
    case False
    with b have "\<not> 0 \<le> - bitlen ?m + 1" and "nat (- (- bitlen ?m + 1)) = nat (bitlen ?m - 1)"
      by simp_all
    then show ?thesis
      by (simp add: power_int_def field_simps)
  qed
  have "of_int (2 ^ nat (bitlen ?m - 1)) \<le> (of_int ?m :: rat)"
    using lo by (simp only: of_int_le_iff)
  also have "of_int ?m < ?r"
    using ceiling_correct [of ?r] by simp
  finally have "2 ^ nat (bitlen ?m - 1) < ?r" by simp
  then have "x < 1 / 2 ^ nat (bitlen ?m - 1)"
    using assms(1) by (simp add: field_simps)
  then show "x < 2 powi (floor_log2 x + 1)"
    by (simp only: e q)
qed

lemma floor_log2_bounds:
  assumes "0 < x"
  shows "2 powi (floor_log2 x) \<le> x" and "x < 2 powi (floor_log2 x + 1)"
  using assms floor_log2_ge1 [of x] floor_log2_lt1 [of x] by (cases "1 \<le> x"; simp)+

lemma round_half_even_le:
  assumes "y \<le> of_int m"
  shows "round_half_even y \<le> m"
proof (cases "\<lfloor>y\<rfloor> = m")
  case True
  with assms of_int_floor_le [of y] have "y = of_int m" by simp
  then show ?thesis by (simp add: round_half_even_def)
next
  case False
  from assms have "\<lfloor>y\<rfloor> \<le> m" by (simp add: floor_le_iff)
  with False have "\<lfloor>y\<rfloor> + 1 \<le> m" by simp
  then show ?thesis by (auto simp: round_half_even_def Let_def)
qed

lemma round_half_even_ge:
  assumes "of_int m \<le> y"
  shows "m \<le> round_half_even y"
proof -
  from assms have "m \<le> \<lfloor>y\<rfloor>" by (simp add: le_floor_iff)
  then show ?thesis by (auto simp: round_half_even_def Let_def)
qed

lemma round_half_even_of_int: "round_half_even (of_int m) = m"
  by (simp add: round_half_even_def)

lemma round_half_even_minus: "round_half_even (- y) = - round_half_even y"
proof (cases "y = of_int \<lfloor>y\<rfloor>")
  case True
  then have "- y = of_int (- \<lfloor>y\<rfloor>)" by simp
  then have "round_half_even (- y) = - \<lfloor>y\<rfloor>"
    by (simp only: round_half_even_of_int)
  moreover from True have "round_half_even y = \<lfloor>y\<rfloor>"
    using round_half_even_of_int [of "\<lfloor>y\<rfloor>"] by simp
  ultimately show ?thesis by simp
next
  case False
  define f where "f = \<lfloor>y\<rfloor>"
  define d where "d = y - of_int f"
  from False have "\<lceil>y\<rceil> = f + 1"
    by (simp add: ceiling_altdef f_def)
  then have fm: "\<lfloor>- y\<rfloor> = - f - 1"
    by (simp add: ceiling_def)
  have "of_int \<lfloor>y\<rfloor> < y"
    using False [symmetric] of_int_floor_le [of y] by (rule order.not_eq_order_implies_strict)
  moreover have "y < of_int \<lfloor>y\<rfloor> + 1"
    using floor_correct [of y] by simp
  ultimately have d: "0 < d" "d < 1"
    by (simp_all add: d_def f_def)
  have y: "y = of_int f + d" by (simp add: d_def)
  have dm: "- y - of_int (- f - 1) = 1 - d" by (simp add: y)
  have ev: "even (- f - 1) \<longleftrightarrow> odd f" by simp
  have a: "round_half_even y =
      (if d < 1 / 2 then f else if 1 / 2 < d then f + 1 else if even f then f else f + 1)"
    unfolding round_half_even_def Let_def f_def [symmetric] d_def [symmetric] by (rule refl)
  have b: "round_half_even (- y) =
      (if 1 - d < 1 / 2 then - f - 1 else if 1 / 2 < 1 - d then - f - 1 + 1
       else if odd f then - f - 1 else - f - 1 + 1)"
    unfolding round_half_even_def Let_def fm dm ev by simp
  show ?thesis
    unfolding a b using d by (auto simp: field_simps)
qed

text \<open>
  The binary64 values include every integer up to \<open>2 ^ 53\<close>: rounding cannot cross an
  integer of that size.
\<close>

lemma ulp_pos: "0 < binary64_ulp x"
  by (simp add: binary64_ulp_def)

lemma round_binary64_nonzero:
  "x \<noteq> 0 \<Longrightarrow> round_binary64 x = of_int (round_half_even (x / binary64_ulp x)) * binary64_ulp x"
  by (simp add: round_binary64_def)

lemma small_exponent_grid:
  assumes "e \<le> 52"
  shows "\<exists>K::int. 0 < K \<and> of_int K * (2::rat) powi (max (e - 52) (- 1074)) = 1"
proof -
  define e' where "e' = max (e - 52) (- 1074)"
  from assms have neg: "0 \<le> - e'" by (simp add: e'_def)
  then have "(2::rat) powi (- e') = 2 ^ nat (- e')"
    by (rule power_int_nonneg_exp)
  moreover have "(2::rat) powi (- e' + e') = 2 powi (- e') * 2 powi e'"
    by (rule power_int_add) simp
  ultimately have "of_int (2 ^ nat (- e')) * (2::rat) powi e' = 1"
    by simp
  moreover have "0 < (2::int) ^ nat (- e')" by simp
  ultimately show ?thesis
    unfolding e'_def by blast
qed

lemma of_int_le_2_53: "n \<le> 2 ^ 53 \<Longrightarrow> (of_int n :: rat) \<le> 2 ^ 53"
  using of_int_le_iff [of n "2 ^ 53", where ?'a = rat] by simp

lemma round_binary64_pos_le:
  assumes "0 < x" and "x \<le> of_int n" and "n \<le> 2 ^ 53"
  shows "round_binary64 x \<le> of_int n"
proof -
  define e where "e = floor_log2 x"
  define u where "u = (2::rat) powi (max (e - 52) (- 1074))"
  have u: "binary64_ulp x = u" "0 < u"
    using assms(1) by (simp_all add: binary64_ulp_def u_def e_def)
  have r: "round_binary64 x = of_int (round_half_even (x / u)) * u"
    using assms(1) round_binary64_nonzero [of x] u by simp
  have lo: "2 powi e \<le> x"
    unfolding e_def using assms(1) by (rule floor_log2_bounds)
  note n53 = of_int_le_2_53 [OF assms(3)]
  have "(2::rat) powi e \<le> 2 powi 53"
    using lo assms(2) n53 by simp
  then have e53: "e \<le> 53"
    by (rule power_int_le_imp_le_exp [rotated]) simp_all
  show ?thesis
  proof (cases "e \<le> 52")
    case True
    from small_exponent_grid [OF True] obtain K :: int where K: "0 < K" "of_int K * u = 1"
      unfolding u_def by blast
    then have inv: "x / u = x * of_int K" for x :: rat
      using u(2) by (simp add: field_simps)
    have "x / u \<le> of_int (n * K)"
      unfolding inv using assms(2) K(1) by (simp add: mult_right_mono)
    then have "round_half_even (x / u) \<le> n * K"
      by (rule round_half_even_le)
    then have "(of_int (round_half_even (x / u)) :: rat) \<le> of_int (n * K)"
      by (simp only: of_int_le_iff)
    then have "of_int (round_half_even (x / u)) * u \<le> of_int (n * K) * u"
      using u(2) by (simp add: mult_right_mono)
    also have "of_int (n * K) * u = of_int n * (of_int K * u)"
      by simp
    also have "\<dots> = of_int n"
      by (simp add: K(2))
    finally show ?thesis by (simp only: r)
  next
    case False
    with e53 have e: "e = 53" by simp
    with lo have "2 ^ 53 \<le> x" by simp
    moreover from assms(2) n53 have "x \<le> 2 ^ 53"
      by simp
    ultimately have x: "x = 2 ^ 53" by simp
    with assms(2) n53 have n: "(of_int n :: rat) = 2 ^ 53"
      by simp
    have "u = 2" by (simp add: u_def e)
    then have "x / u = of_int (2 ^ 52)" by (simp add: x)
    then have "round_half_even (x / u) = 2 ^ 52"
      by (simp only: round_half_even_of_int)
    then show ?thesis
      by (simp add: r n \<open>u = 2\<close>)
  qed
qed

lemma round_binary64_pos_ge:
  assumes "0 < x" and "of_int n \<le> x" and "n \<le> 2 ^ 53"
  shows "of_int n \<le> round_binary64 x"
proof -
  define e where "e = floor_log2 x"
  define u where "u = (2::rat) powi (max (e - 52) (- 1074))"
  have u: "binary64_ulp x = u" "0 < u"
    using assms(1) by (simp_all add: binary64_ulp_def u_def e_def)
  have r: "round_binary64 x = of_int (round_half_even (x / u)) * u"
    using assms(1) round_binary64_nonzero [of x] u by simp
  have lo: "2 powi e \<le> x"
    unfolding e_def using assms(1) by (rule floor_log2_bounds)
  show ?thesis
  proof (cases "e \<le> 52")
    case True
    from small_exponent_grid [OF True] obtain K :: int where K: "0 < K" "of_int K * u = 1"
      unfolding u_def by blast
    then have inv: "x / u = x * of_int K" for x :: rat
      using u(2) by (simp add: field_simps)
    have "of_int (n * K) \<le> x / u"
      unfolding inv using assms(2) K(1) by (simp add: mult_right_mono)
    then have "n * K \<le> round_half_even (x / u)"
      by (rule round_half_even_ge)
    then have "(of_int (n * K) :: rat) \<le> of_int (round_half_even (x / u))"
      by (simp only: of_int_le_iff)
    then have "of_int (n * K) * u \<le> of_int (round_half_even (x / u)) * u"
      using u(2) by (simp add: mult_right_mono)
    moreover have "of_int (n * K) * u = of_int n * (of_int K * u)"
      by simp
    moreover have "\<dots> = of_int n"
      by (simp add: K(2))
    ultimately show ?thesis by (simp only: r)
  next
    case False
    then have e: "53 \<le> e" by simp
    then have ue: "u = 2 powi (e - 52)" by (simp add: u_def max_def)
    have "(2::rat) powi e = 2 powi 52 * 2 powi (e - 52)"
      using power_int_add [of "2::rat" 52 "e - 52"] by simp
    then have pe: "(2::rat) powi e = of_int (2 ^ 52) * u"
      by (simp add: ue)
    with lo u(2) have "of_int (2 ^ 52) \<le> x / u"
      by (simp add: field_simps)
    then have "2 ^ 52 \<le> round_half_even (x / u)"
      by (rule round_half_even_ge)
    then have "(of_int (2 ^ 52) :: rat) \<le> of_int (round_half_even (x / u))"
      by (simp only: of_int_le_iff)
    then have "of_int (2 ^ 52) * u \<le> of_int (round_half_even (x / u)) * u"
      using u(2) by (simp add: mult_right_mono)
    then have "2 powi e \<le> round_binary64 x"
      by (simp only: r pe)
    moreover have "(2::rat) powi 53 \<le> 2 powi e"
      using e by (intro power_int_increasing) simp_all
    moreover have "(of_int n :: rat) \<le> 2 powi 53"
      using of_int_le_2_53 [OF assms(3)] by simp
    ultimately show ?thesis by linarith
  qed
qed

lemma round_binary64_minus: "round_binary64 (- x) = - round_binary64 x"
  by (simp add: round_binary64_def binary64_ulp_def round_half_even_minus)

lemma round_binary64_le:
  assumes "x \<le> of_int n" and "\<bar>n\<bar> \<le> 2 ^ 53"
  shows "round_binary64 x \<le> of_int n"
proof -
  consider "0 < x" | "x = 0" | "x < 0" "0 \<le> n" | "x < 0" "n < 0" by linarith
  then show ?thesis
  proof cases
    case 1
    with assms show ?thesis by (intro round_binary64_pos_le) simp_all
  next
    case 2
    with assms show ?thesis by (simp add: round_binary64_def)
  next
    case 3
    from 3(1) have "of_int 0 \<le> round_binary64 (- x)"
      by (intro round_binary64_pos_ge) simp_all
    with 3(2) show ?thesis
      by (simp add: round_binary64_minus)
  next
    case 4
    from 4 assms have "of_int (- n) \<le> round_binary64 (- x)"
      by (intro round_binary64_pos_ge) simp_all
    then show ?thesis
      by (simp add: round_binary64_minus)
  qed
qed

lemma round_binary64_ge:
  assumes "of_int n \<le> x" and "\<bar>n\<bar> \<le> 2 ^ 53"
  shows "of_int n \<le> round_binary64 x"
proof -
  from assms have "- x \<le> of_int (- n)" and "\<bar>- n\<bar> \<le> 2 ^ 53" by simp_all
  then have "round_binary64 (- x) \<le> of_int (- n)"
    by (rule round_binary64_le)
  then show ?thesis
    by (simp add: round_binary64_minus)
qed

lemma round_binary64_of_int:
  assumes "\<bar>n\<bar> \<le> 2 ^ 53"
  shows "round_binary64 (of_int n) = of_int n"
  using round_binary64_le [of "of_int n" n] round_binary64_ge [of n "of_int n"] assms
  by simp

lemma floor_log2_small:
  assumes "0 < y" and "y \<le> 2 ^ 53"
  shows "floor_log2 y \<le> 53"
proof -
  have "2 powi (floor_log2 y) \<le> y"
    using assms(1) by (rule floor_log2_bounds)
  with assms(2) have "(2::rat) powi (floor_log2 y) \<le> 2 powi 53" by simp
  then show ?thesis
    by (rule power_int_le_imp_le_exp [rotated]) simp_all
qed

lemma to_binary64_finite:
  assumes "of_int lo \<le> x" and "x \<le> of_int hi" and "\<bar>lo\<bar> \<le> 2 ^ 53" and "\<bar>hi\<bar> \<le> 2 ^ 53"
  shows "\<exists>v. to_binary64 x = Finite v \<and> of_int lo \<le> v \<and> v \<le> of_int hi"
proof -
  let ?y = "round_binary64 x"
  have lo: "of_int lo \<le> ?y" using assms(1,3) by (rule round_binary64_ge)
  have hi: "?y \<le> of_int hi" using assms(2,4) by (rule round_binary64_le)
  have "(of_int hi :: rat) \<le> 2 ^ 53"
    using assms(4) by (intro of_int_le_2_53) simp
  moreover have "(of_int (- lo) :: rat) \<le> 2 ^ 53"
    using assms(3) by (intro of_int_le_2_53) simp
  ultimately have "\<bar>?y\<bar> \<le> 2 ^ 53"
    using lo hi by simp
  then have small: "?y \<noteq> 0 \<Longrightarrow> floor_log2 \<bar>?y\<bar> \<le> 53"
    by (intro floor_log2_small) simp_all
  have "to_binary64 x = Finite ?y"
  proof (cases "?y = 0")
    case True
    then show ?thesis by (simp add: to_binary64_def)
  next
    case False
    with small have "\<not> 1024 \<le> floor_log2 \<bar>?y\<bar>" by simp
    with False show ?thesis by (simp add: to_binary64_def Let_def)
  qed
  with lo hi show ?thesis by blast
qed

lemma int_to_float_exact:
  assumes "\<bar>n\<bar> \<le> 2 ^ 53"
  shows "int_to_float n = Inr (Finite (of_int n))"
proof -
  from to_binary64_finite [of n "of_int n" n] assms obtain v where
    "to_binary64 (of_int n) = Finite v" "of_int n \<le> v" "v \<le> of_int n"
    by auto
  then show ?thesis
    by (simp add: int_to_float_def)
qed

text \<open>Every power of two up to \<open>2 ^ 1023\<close> is a binary64 value as well.\<close>

lemma floor_log2_le_pow2:
  assumes "0 < y" and "y \<le> 2 ^ k"
  shows "floor_log2 y \<le> int k"
proof -
  have "2 powi (floor_log2 y) \<le> y"
    using assms(1) by (rule floor_log2_bounds)
  with assms(2) have "(2::rat) powi (floor_log2 y) \<le> 2 powi (int k)" by simp
  then show ?thesis
    by (rule power_int_le_imp_le_exp [rotated]) simp_all
qed

lemma round_binary64_pos_le_pow2:
  assumes "0 < x" and "x \<le> 2 ^ k"
  shows "round_binary64 x \<le> 2 ^ k"
proof -
  define e' where "e' = max (floor_log2 x - 52) (- 1074)"
  define u where "u = (2::rat) powi e'"
  have u: "binary64_ulp x = u" "0 < u"
    using assms(1) by (simp_all add: binary64_ulp_def u_def e'_def)
  have r: "round_binary64 x = of_int (round_half_even (x / u)) * u"
    using assms(1) round_binary64_nonzero [of x] u by simp
  have "floor_log2 x \<le> int k"
    using assms by (rule floor_log2_le_pow2)
  then have d: "0 \<le> int k - e'" by (simp add: e'_def)
  have "(2::rat) powi (int k - e' + e') = 2 powi (int k - e') * 2 powi e'"
    by (rule power_int_add) simp
  moreover have "(2::rat) powi (int k - e') = of_int (2 ^ nat (int k - e'))"
    using d by (simp add: power_int_nonneg_exp)
  ultimately have grid: "(2::rat) ^ k = of_int (2 ^ nat (int k - e')) * u"
    by (simp add: u_def)
  then have "x / u \<le> of_int (2 ^ nat (int k - e'))"
    using assms(2) u(2) by (simp add: field_simps)
  then have "round_half_even (x / u) \<le> 2 ^ nat (int k - e')"
    by (rule round_half_even_le)
  then have "(of_int (round_half_even (x / u)) :: rat) \<le> of_int (2 ^ nat (int k - e'))"
    by (simp only: of_int_le_iff)
  then have "of_int (round_half_even (x / u)) * u \<le> of_int (2 ^ nat (int k - e')) * u"
    using u(2) by (simp add: mult_right_mono)
  then show ?thesis
    by (simp only: r grid)
qed

lemma to_binary64_nonneg_finite:
  assumes "0 \<le> x" and "x \<le> 2 ^ k" and "k \<le> 1023"
  shows "\<exists>v. to_binary64 x = Finite v \<and> 0 \<le> v \<and> v \<le> 2 ^ k"
proof (cases "x = 0")
  case True
  then show ?thesis
    by (simp add: to_binary64_def round_binary64_def)
next
  case False
  with assms(1) have pos: "0 < x" by simp
  let ?y = "round_binary64 x"
  have hi: "?y \<le> 2 ^ k"
    using pos assms(2) by (rule round_binary64_pos_le_pow2)
  have "of_int 0 \<le> ?y"
    using pos by (intro round_binary64_pos_ge) simp_all
  then have lo: "0 \<le> ?y" by simp
  have "to_binary64 x = Finite ?y"
  proof (cases "?y = 0")
    case True
    then show ?thesis by (simp add: to_binary64_def)
  next
    case False
    with lo have "0 < ?y" by simp
    then have "floor_log2 ?y \<le> int k"
      using hi by (rule floor_log2_le_pow2)
    with assms(3) have "\<not> 1024 \<le> floor_log2 \<bar>?y\<bar>"
      using lo by simp
    with False show ?thesis by (simp add: to_binary64_def Let_def)
  qed
  with lo hi show ?thesis by blast
qed

lemma py_mul_int_float_nonneg:
  assumes "0 \<le> n" and "n \<le> 2 ^ 1023" and "0 \<le> f" and "f \<le> 1"
  shows "\<exists>w. py_mul (PyInt n) (PyFloat (Finite f)) = Inr (PyFloat (Finite w)) \<and> 0 \<le> w"
proof -
  have "(0::rat) \<le> of_int n" using assms(1) by simp
  moreover have "(of_int n :: rat) \<le> 2 ^ 1023"
    using assms(2) of_int_le_iff [of n "2 ^ 1023", where ?'a = rat] by simp
  ultimately obtain v where v: "to_binary64 (of_int n) = Finite v" "0 \<le> v" "v \<le> 2 ^ 1023"
    using to_binary64_nonneg_finite [of "of_int n" 1023] by auto
  then have i: "int_to_float n = Inr (Finite v)"
    by (simp add: int_to_float_def)
  have "0 \<le> v * f" using v(2) assms(3) by simp
  moreover have "v * f \<le> 2 ^ 1023"
    using v(2,3) assms(3,4) mult_mono [of v "2 ^ 1023" f 1] by simp
  ultimately obtain w where "to_binary64 (v * f) = Finite w" "0 \<le> w"
    using to_binary64_nonneg_finite [of "v * f" 1023] by auto
  with i show ?thesis by simp
qed

lemma int_small_of_rat:
  assumes "\<bar>(of_int k :: rat)\<bar> \<le> 2 ^ 53"
  shows "\<bar>k\<bar> \<le> 2 ^ 53"
proof -
  from assms have a: "(of_int k :: rat) \<le> of_int (2 ^ 53)"
    and b: "(of_int (- (2 ^ 53)) :: rat) \<le> of_int k"
    by (simp_all add: abs_le_iff)
  from a have "k \<le> 2 ^ 53" by (simp only: of_int_le_iff)
  moreover from b have "- (2 ^ 53) \<le> k" by (simp only: of_int_le_iff)
  ultimately show ?thesis by simp
qed

section \<open>The range of the shot count\<close>

lemma py_mul_int_float_range:
  assumes "0 \<le> n" and "n \<le> 2 ^ 51" and "0 \<le> f" and "f \<le> 2"
  shows "\<exists>v. py_mul (PyInt n) (PyFloat (Finite f)) = Inr (PyFloat (Finite v))
            \<and> 0 \<le> v \<and> v \<le> of_int (2 * n)"
proof -
  from assms(1,2) have "\<bar>n\<bar> \<le> 2 ^ 53" by simp
  then have i: "int_to_float n = Inr (Finite (of_int n))"
    by (rule int_to_float_exact)
  have "of_int 0 \<le> of_int n * f"
    using assms(1,3) by simp
  moreover have "of_int n * f \<le> of_int (2 * n)"
    using assms(1,4) mult_left_mono [of f 2 "of_int n"] by simp
  moreover have "\<bar>0::int\<bar> \<le> 2 ^ 53" "\<bar>2 * n\<bar> \<le> 2 ^ 53"
    using assms(1,2) by simp_all
  ultimately obtain v where "to_binary64 (of_int n * f) = Finite v" "of_int 0 \<le> v" "v \<le> of_int (2 * n)"
    using to_binary64_finite [of 0 "of_int n * f" "2 * n"] by blast
  with i show ?thesis by simp
qed

lemma py_min2_range:
  assumes "exact_value x = Finite v" and "0 \<le> v" and "0 \<le> m"
  shows "\<exists>w. exact_value (py_min2 x (PyInt m)) = Finite w \<and> 0 \<le> w \<and> w \<le> of_int m"
  using assms by (auto simp: py_min2_def py_lt_def)

lemma py_add_range:
  assumes "exact_value x = Finite a" and "exact_value y = Finite b"
    and "\<bar>a\<bar> \<le> 2 ^ 53" and "\<bar>b\<bar> \<le> 2 ^ 53"
    and "of_int lo \<le> a + b" and "a + b \<le> of_int hi"
    and "\<bar>lo\<bar> \<le> 2 ^ 53" and "\<bar>hi\<bar> \<le> 2 ^ 53"
  shows "\<exists>z w. py_add x y = Inr z \<and> exact_value z = Finite w \<and> of_int lo \<le> w \<and> w \<le> of_int hi"
proof -
  from to_binary64_finite [OF assms(5,6,7,8)] obtain v where
    v: "to_binary64 (a + b) = Finite v" "of_int lo \<le> v" "v \<le> of_int hi"
    by blast
  note small = int_small_of_rat
  show ?thesis
  proof (cases x)
    case (PyInt k)
    with assms(1,3) have k: "a = of_int k" "int_to_float k = Inr (Finite (of_int k))"
      using small [of k] int_to_float_exact [of k] by auto
    show ?thesis
    proof (cases y)
      case (PyInt l)
      with assms(2) have "b = of_int l" by simp
      with PyInt \<open>x = PyInt k\<close> k(1) assms(5,6) show ?thesis by simp
    next
      case (PyFloat g)
      with assms(2) have "g = Finite b" by simp
      with PyFloat \<open>x = PyInt k\<close> k v show ?thesis by simp
    qed
  next
    case (PyFloat f)
    with assms(1) have f: "f = Finite a" by simp
    show ?thesis
    proof (cases y)
      case (PyInt l)
      with assms(2,4) have l: "b = of_int l" "int_to_float l = Inr (Finite (of_int l))"
        using small [of l] int_to_float_exact [of l] by auto
      with PyInt \<open>x = PyFloat f\<close> f v show ?thesis by simp
    next
      case (PyFloat g)
      with assms(2) have "g = Finite b" by simp
      with PyFloat \<open>x = PyFloat f\<close> f v show ?thesis by simp
    qed
  qed
qed

lemma py_truediv_2_range:
  assumes "exact_value s = Finite a" and "0 \<le> a" and "a \<le> of_int (2 * m)" and "m \<le> 2 ^ 52"
  shows "\<exists>w. py_truediv s 2 = Inr (PyFloat (Finite w)) \<and> 0 \<le> w \<and> w \<le> of_int m"
proof -
  from assms(2,3) have "(0::rat) \<le> of_int (2 * m)" by (rule order_trans)
  then have "0 \<le> 2 * m" by (simp only: of_int_0_le_iff)
  then have m0: "0 \<le> m" by simp
  have "of_int 0 \<le> a / 2" using assms(2) by simp
  moreover have "a / 2 \<le> of_int m" using assms(3) by simp
  moreover have "\<bar>0::int\<bar> \<le> 2 ^ 53" "\<bar>m\<bar> \<le> 2 ^ 53" using assms(4) m0 by simp_all
  ultimately obtain w where
    w: "to_binary64 (a / 2) = Finite w" "of_int 0 \<le> w" "w \<le> of_int m"
    using to_binary64_finite [of 0 "a / 2" m] by blast
  have two: "int_to_float 2 = Inr (Finite 2)"
    using int_to_float_exact [of 2] by simp
  show ?thesis
  proof (cases s)
    case (PyInt k)
    with assms(1) have "a = of_int k" by simp
    with PyInt w show ?thesis by simp
  next
    case (PyFloat f)
    with assms(1) have "f = Finite a" by simp
    with PyFloat w two show ?thesis by simp
  qed
qed

lemma bb84_additional_shots_range:
  assumes "0 \<le> c" and "0 \<le> t" and "t \<le> 2 ^ 1023"
    and "0 \<le> max_shots - base_shots" and "max_shots - base_shots \<le> 2 ^ 52"
  shows "\<exists>k. bb84_additional_shots c t base_shots max_shots = Inr k
           \<and> 0 \<le> k \<and> k \<le> max_shots - base_shots"
proof -
  let ?m = "max_shots - base_shots"
  let ?asc = "py_min2 (PyInt (c * 5)) (PyInt ?m)"
  have m53: "(of_int ?m :: rat) \<le> 2 ^ 53"
    using assms(5) by (intro of_int_le_2_53) simp
  from assms(1) have "exact_value (PyInt (c * 5)) = Finite (of_int (c * 5))"
    and "(0::rat) \<le> of_int (c * 5)"
    by simp_all
  from py_min2_range [OF this assms(4)] obtain a where
    a: "exact_value ?asc = Finite a" "0 \<le> a" "a \<le> of_int ?m"
    by blast
  have "(0::rat) \<le> float_0_1" "float_0_1 \<le> 1"
    by (simp_all add: float_0_1_def)
  from py_mul_int_float_nonneg [OF assms(2,3) this] obtain v where
    v: "py_mul (PyInt t) (PyFloat (Finite float_0_1)) = Inr (PyFloat (Finite v))" "0 \<le> v"
    by blast
  let ?asl = "py_min2 (PyFloat (Finite v)) (PyInt ?m)"
  have "exact_value (PyFloat (Finite v)) = Finite v" by simp
  from py_min2_range [OF this v(2) assms(4)] obtain b where
    b: "exact_value ?asl = Finite b" "0 \<le> b" "b \<le> of_int ?m"
    by blast
  have "\<bar>a\<bar> \<le> 2 ^ 53" "\<bar>b\<bar> \<le> 2 ^ 53"
    using a b m53 by simp_all
  moreover have "of_int 0 \<le> a + b" "a + b \<le> of_int (2 * ?m)"
    using a b by simp_all
  moreover have "\<bar>0::int\<bar> \<le> 2 ^ 53" "\<bar>2 * ?m\<bar> \<le> 2 ^ 53"
    using assms(4,5) by simp_all
  ultimately obtain s w where
    s: "py_add ?asc ?asl = Inr s" "exact_value s = Finite w" "of_int 0 \<le> w" "w \<le> of_int (2 * ?m)"
    using py_add_range [OF a(1) b(1), of 0 "2 * ?m"] by blast
  from s(3) have w0: "0 \<le> w" by simp
  from py_truediv_2_range [OF s(2) w0 s(4) assms(5)] obtain h where
    h: "py_truediv s 2 = Inr (PyFloat (Finite h))" "0 \<le> h" "h \<le> of_int ?m"
    by blast
  from h(2) have "of_int 0 \<le> h" by simp
  then have "0 \<le> round_half_even h" by (rule round_half_even_ge)
  moreover from h(3) have "round_half_even h \<le> ?m" by (rule round_half_even_le)
  moreover have "bb84_additional_shots c t base_shots max_shots = Inr (round_half_even h)"
    by (simp add: bb84_additional_shots_def Let_def v(1) s(1) h(1)
        del: py_mul.simps py_add.simps py_truediv.simps)
  ultimately show ?thesis by blast
qed

lemma special_branch_range:
  assumes "0 \<le> c" and "c \<le> 2 ^ 51" and "\<bar>base_shots\<bar> \<le> 2 ^ 51" and "\<bar>max_shots\<bar> \<le> 2 ^ 51"
    and "base_shots \<le> max_shots"
  shows "\<exists>cx r. py_mul (PyInt c) (PyFloat (Finite float_1_5)) = Inr cx
           \<and> py_add (PyInt base_shots) (py_min2 cx (PyInt (max_shots - base_shots))) = Inr r
           \<and> py_le (PyInt base_shots) r \<and> py_le r (PyInt max_shots)"
proof -
  let ?m = "max_shots - base_shots"
  have m: "0 \<le> ?m" "?m \<le> 2 ^ 52"
    using assms(3,4,5) by simp_all
  have m53: "(of_int ?m :: rat) \<le> 2 ^ 53"
    using m(2) by (intro of_int_le_2_53) simp
  have "(0::rat) \<le> float_1_5" "float_1_5 \<le> 2"
    by (simp_all add: float_1_5_def)
  from py_mul_int_float_range [OF assms(1,2) this] obtain v where
    v: "py_mul (PyInt c) (PyFloat (Finite float_1_5)) = Inr (PyFloat (Finite v))" "0 \<le> v"
    by blast
  let ?add = "py_min2 (PyFloat (Finite v)) (PyInt ?m)"
  have "exact_value (PyFloat (Finite v)) = Finite v" by simp
  from py_min2_range [OF this v(2) m(1)] obtain b where
    b: "exact_value ?add = Finite b" "0 \<le> b" "b \<le> of_int ?m"
    by blast
  have base: "exact_value (PyInt base_shots) = Finite (of_int base_shots)" by simp
  have "(of_int \<bar>base_shots\<bar> :: rat) \<le> 2 ^ 53"
    using assms(3) by (intro of_int_le_2_53) simp
  then have "\<bar>(of_int base_shots :: rat)\<bar> \<le> 2 ^ 53" by simp
  moreover have "\<bar>b\<bar> \<le> 2 ^ 53" using b m53 by simp
  moreover have "of_int base_shots \<le> of_int base_shots + b" using b(2) by simp
  moreover have "of_int base_shots + b \<le> of_int max_shots" using b(3) by simp
  moreover have "\<bar>base_shots\<bar> \<le> 2 ^ 53" "\<bar>max_shots\<bar> \<le> 2 ^ 53"
    using assms(3,4) by simp_all
  ultimately obtain r w where
    r: "py_add (PyInt base_shots) ?add = Inr r" "exact_value r = Finite w"
       "of_int base_shots \<le> w" "w \<le> of_int max_shots"
    using py_add_range [OF base b(1), of base_shots max_shots] by blast
  then have "py_le (PyInt base_shots) r" "py_le r (PyInt max_shots)"
    by (simp_all add: py_le_def)
  with v(1) r(1) show ?thesis by blast
qed

lemma shots_in_range:
  assumes "0 \<le> c" and "c \<le> 2 ^ 51" and "0 \<le> t" and "t \<le> 2 ^ 51"
    and "\<bar>base_shots\<bar> \<le> 2 ^ 51" and "\<bar>max_shots\<bar> \<le> 2 ^ 51" and "base_shots \<le> max_shots"
  shows "(\<exists>r. bb84_calculate_adaptive_shots c t conf base_shots max_shots = Inr r
            \<and> py_le (PyInt base_shots) r \<and> py_le r (PyInt max_shots))
       \<and> (\<exists>r. qdt_calculate_adaptive_shots c conf base_shots max_shots = Inr r
            \<and> py_le (PyInt base_shots) r \<and> py_le r (PyInt max_shots))"
proof -
  let ?m = "max_shots - base_shots"
  have m: "0 \<le> ?m" "?m \<le> 2 ^ 52"
    using assms(5,6,7) by simp_all
  from assms(4) have t: "t \<le> 2 ^ 1023" by simp
  from bb84_additional_shots_range [OF assms(1,3) t m] obtain k where
    k: "bb84_additional_shots c t base_shots max_shots = Inr k" "0 \<le> k" "k \<le> ?m"
    by blast
  from special_branch_range [OF assms(1,2,5,6,7)] obtain cx r where
    sp: "py_mul (PyInt c) (PyFloat (Finite float_1_5)) = Inr cx"
        "py_add (PyInt base_shots) (py_min2 cx (PyInt ?m)) = Inr r"
        "py_le (PyInt base_shots) r" "py_le r (PyInt max_shots)"
    by blast
  have bb: "\<exists>r. bb84_calculate_adaptive_shots c t conf base_shots max_shots = Inr r
            \<and> py_le (PyInt base_shots) r \<and> py_le r (PyInt max_shots)"
  proof (cases "float_0_90 < conf")
    case True
    with k(1) sp show ?thesis
      by (simp add: bb84_calculate_adaptive_shots_def del: py_mul.simps py_add.simps)
  next
    case False
    with k show ?thesis
      by (simp add: bb84_calculate_adaptive_shots_def py_le_def)
  qed
  have qd: "\<exists>r. qdt_calculate_adaptive_shots c conf base_shots max_shots = Inr r
            \<and> py_le (PyInt base_shots) r \<and> py_le r (PyInt max_shots)"
  proof (cases "float_0_90 < conf")
    case True
    with sp show ?thesis
      by (simp add: qdt_calculate_adaptive_shots_def del: py_mul.simps py_add.simps)
  next
    case False
    have "py_min2 (PyInt (c * 5)) (PyInt ?m) = PyInt (if ?m < c * 5 then ?m else c * 5)"
      by (simp add: py_min2_def py_lt_def)
    with False m assms(1) show ?thesis
      by (simp add: qdt_calculate_adaptive_shots_def py_le_def)
  qed
  from bb qd show ?thesis by blast
qed

text \<open>
  Claim C2. For non-negative \<open>circuit_complexity\<close> and \<open>text_length\<close> and
  \<open>base_shots \<le> max_shots\<close>, the value returned by \<open>calculate_adaptive_shots\<close> is at
  least \<open>base_shots\<close> and at most \<open>max_shots\<close>. The code caps both terms of the mean
  at \<open>max_shots - base_shots\<close> but computes the mean in floats: with \<open>base_shots = 0\<close>
  and \<open>max_shots = 2 ^ 53 + 3\<close>, which is not a binary64 value, both capped terms are
  \<open>2 ^ 53 + 3\<close>, their mean is rounded to the binary64 value \<open>2 ^ 53 + 4\<close>, and the
  BB84 variant returns \<open>2 ^ 53 + 4\<close>, more than \<open>max_shots\<close>.
\<close>

theorem adaptive_shots_above_max:
  "bb84_calculate_adaptive_shots (10 ^ 17) (10 ^ 18) 0 0 (2 ^ 53 + 3) = Inr (PyInt (2 ^ 53 + 4))
   \<and> \<not> py_le (PyInt (2 ^ 53 + 4)) (PyInt (2 ^ 53 + 3))"
  by code_simp


text \<open>
  Claim C3. \<open>BB84Protocol.calculate_adaptive_shots\<close> returns \<open>base_shots\<close> plus an
  additional-shots term that is capped at \<open>max_shots - base_shots\<close>. In the default
  branch the code does not keep the cap: on the same arguments the additional term, the
  rounded float mean of two terms that are each capped by \<open>min\<close>, is \<open>2 ^ 53 + 4\<close>,
  more than \<open>max_shots - base_shots = 2 ^ 53 + 3\<close>.
\<close>

theorem bb84_additional_shots_above_cap:
  "bb84_additional_shots (10 ^ 17) (10 ^ 18) 0 (2 ^ 53 + 3) = Inr (2 ^ 53 + 4)
   \<and> \<not> (2 ^ 53 + 4 \<le> (2 ^ 53 + 3) - (0::int))"
  by code_simp

section \<open>The noiseless BB84 circuit\<close>








section \<open>\<open>run_protocol\<close> without compression and without noise\<close>




lemma run_simulation_no_circuits:
  "circuits self = [] \<Longrightarrow> run_simulation env self = Inl TypeError"
  by (simp add: run_simulation_unfold)

section \<open>Round trip\<close>






end
